theory Spec2Isabelle
  imports
    Complex_Main
    "HOL-Library.Char_ord"
    "HOL-Library.List_Lexorder"
    "HOL-Library.Product_Lexorder"
    "HOL-Library.Sublist"
begin

section \<open>Values, rows and the books table\<close>

text \<open>
  The API is JavaScript over a PostgreSQL table. A JavaScript primitive and a table cell
  are the same kind of value here: \<open>VUndefined\<close> (an absent key), \<open>VNull\<close>, a boolean,
  a number, a string or a timestamp. JavaScript numbers are modelled as mathematical
  integers (\<open>VInt\<close>) and exact decimals (\<open>VDec\<close>): the range of a double and of the
  store's integer types is not modelled.

  A JavaScript object (the request body, a row returned by the store) is a function from
  key to value that is \<open>VUndefined\<close> at every key the object does not have.
\<close>

datatype val =
    VUndefined
  | VNull
  | VBool bool
  | VInt int
  | VDec rat
  | VStr string
  | VDate nat

type_synonym obj = "string \<Rightarrow> val"

text \<open>JavaScript truthiness, as used by \<open>if (isbn)\<close>, \<open>if (genre)\<close> and \<open>if (err.code)\<close>.\<close>

fun truthy :: "val \<Rightarrow> bool" where
  "truthy VUndefined = False"
| "truthy VNull = False"
| "truthy (VBool b) = b"
| "truthy (VInt n) = (n \<noteq> 0)"
| "truthy (VDec r) = (r \<noteq> 0)"
| "truthy (VStr s) = (s \<noteq> [])"
| "truthy (VDate t) = True"

text \<open>The twelve columns of the table \<open>books\<close> in \<open>database.sql\<close>.\<close>

definition columns :: "string list" where
  "columns = [''id'', ''title'', ''author'', ''isbn'', ''publication_year'', ''genre'',
              ''pages'', ''description'', ''price'', ''in_stock'', ''created_at'', ''updated_at'']"

subsection \<open>Pattern matching of the store: LIKE and ILIKE\<close>

text \<open>
  PostgreSQL's LIKE: \<open>%\<close> matches any sequence of characters, \<open>_\<close> matches any one
  character, a backslash makes the next pattern character literal. A pattern that ends
  in a lone backslash is an error in the store; no pattern built below ends in one (each
  ends in \<open>%\<close>), and the matcher answers \<open>False\<close> there. ILIKE folds the case of both
  sides first; the folding modelled is that of the ASCII letters.
\<close>

definition lower_char :: "char \<Rightarrow> char" where
  "lower_char c =
     (case map_of (zip ''ABCDEFGHIJKLMNOPQRSTUVWXYZ'' ''abcdefghijklmnopqrstuvwxyz'') c of
        Some l \<Rightarrow> l
      | None \<Rightarrow> c)"

definition upper_char :: "char \<Rightarrow> char" where
  "upper_char c =
     (case map_of (zip ''abcdefghijklmnopqrstuvwxyz'' ''ABCDEFGHIJKLMNOPQRSTUVWXYZ'') c of
        Some u \<Rightarrow> u
      | None \<Rightarrow> c)"

definition toLowerCase :: "string \<Rightarrow> string" where
  "toLowerCase s = map lower_char s"

definition toUpperCase :: "string \<Rightarrow> string" where
  "toUpperCase s = map upper_char s"

fun like_match :: "string \<Rightarrow> string \<Rightarrow> bool" where
  "like_match [] s = (s = [])"
| "like_match (p # ps) s =
     (if p = CHR ''%'' then
        (like_match ps s \<or> (case s of [] \<Rightarrow> False | c # cs \<Rightarrow> like_match (p # ps) cs))
      else if p = CHR ''_'' then
        (case s of [] \<Rightarrow> False | c # cs \<Rightarrow> like_match ps cs)
      else if p = CHR 0x5C then
        (case ps of
           [] \<Rightarrow> False
         | q # qs \<Rightarrow> (case s of [] \<Rightarrow> False | c # cs \<Rightarrow> c = q \<and> like_match qs cs))
      else
        (case s of [] \<Rightarrow> False | c # cs \<Rightarrow> c = p \<and> like_match ps cs))"

definition ilike :: "string \<Rightarrow> string \<Rightarrow> bool" where
  "ilike s pat = like_match (toLowerCase pat) (toLowerCase s)"

subsection \<open>Statements\<close>

text \<open>
  A statement is the SQL text the repository builds, with its positional placeholders
  \<open>$n\<close> kept as numbers; the parameter list travels beside it, as in
  \<open>query(text, params)\<close>. Column names and the ORDER BY direction are the strings the
  code interpolates into the text.
\<close>

datatype cond =
    ILIKE string nat
  | EQ string nat

datatype wher =
    AllOf "cond list"
  | AnyOf "cond list"

datatype stmt =
    Select wher "(string \<times> string) option" "(nat \<times> nat) option"
  | SelectCount wher
  | Insert "string list" "nat list"
  | Update "(string \<times> nat) list" cond
  | Delete cond

datatype result =
    Rows "obj list"
  | Total nat

fun result_rows :: "result \<Rightarrow> obj list" where
  "result_rows (Rows rs) = rs"
| "result_rows (Total n) = []"

subsection \<open>Errors and responses\<close>

text \<open>
  The message texts of the source are Russian; each is named here by a constructor.
  \<open>NotFoundMsg i\<close> and \<open>DeletedMsg i\<close> are the two texts that carry the requested id.
\<close>

datatype message =
    NotFoundMsg val
  | ResourceNotFoundMsg
  | IsbnExistsMsg
  | CreatedMsg
  | UpdatedMsg
  | DeletedMsg val
  | DuplicateRecordMsg
  | ForeignKeyMsg
  | BadFormatMsg
  | DbUnavailableMsg
  | ValidationMsg
  | ValidationDataMsg
  | InternalMsg
  | RawMsg string

datatype jv =
    JVal val
  | JMsg message
  | JRow obj
  | JRows "obj list"
  | JObj "(string \<times> jv) list"
  | JList "jv list"

text \<open>
  What a handler can throw: an error of the store or of the connection (it has
  \<open>code\<close>, \<open>detail\<close> and \<open>message\<close>), an \<open>ApiError\<close> (status code, message, details,
  timestamp), a validation result (it has \<open>array()\<close>), or any other error.
\<close>

datatype error =
    PgError val val message
  | ApiError nat message jv nat
  | ValidationResult jv
  | OtherError message

record response =
  status :: nat
  body :: "(string \<times> jv) list"

text \<open>\<open>res.json\<close>: a key whose value is \<open>undefined\<close> is not serialised.\<close>

fun is_undefined :: "jv \<Rightarrow> bool" where
  "is_undefined (JVal VUndefined) = True"
| "is_undefined j = False"

definition json :: "(string \<times> jv) list \<Rightarrow> (string \<times> jv) list" where
  "json kvs = filter (\<lambda>kv. \<not> is_undefined (snd kv)) kvs"

text \<open>
  The environment of a request: the current time (\<open>new Date()\<close>, and
  \<open>CURRENT_TIMESTAMP\<close> in the store) and whether \<open>NODE_ENV\<close> is \<open>production\<close>.
\<close>

record env =
  clock :: nat
  production :: bool

text \<open>
  The argument and the result of \<open>Book.findAll\<close>, and the query string of the list
  request (\<open>req.query\<close>: every parameter is a string, or absent).
\<close>

record options =
  page :: "int option"
  limit :: "int option"
  sortBy :: "string option"
  sortOrder :: "string option"
  genre :: "string option"
  author :: "string option"
  inStock :: "bool option"

record pagination =
  currentPage :: int
  totalPages :: "int option"
  totalItems :: int
  itemsPerPage :: int

record list_result =
  data :: "obj list"
  pagination :: pagination

record list_query =
  q_page :: "string option"
  q_limit :: "string option"
  q_sortBy :: "string option"
  q_sortOrder :: "string option"
  q_genre :: "string option"
  q_author :: "string option"
  q_inStock :: "string option"

section \<open>The store\<close>

text \<open>
  The external collaborator: the \<open>books\<close> table of \<open>database.sql\<close> behind
  \<open>query(text, params)\<close>. Its state is the rows in physical order, the next value of
  the \<open>id\<close> sequence, and the statements submitted so far (\<open>config/database.js\<close> logs
  every one). The constraints are those of the table definition: \<open>id\<close> is the primary
  key, \<open>title\<close> and \<open>author\<close> are NOT NULL, \<open>isbn\<close> is UNIQUE among non-null
  values; the trigger \<open>update_books_updated_at\<close> refreshes \<open>updated_at\<close> on every
  updated row. The column types (lengths, numeric ranges, text-to-number coercion) are
  not modelled.
\<close>

record db =
  rows :: "obj list"
  next_id :: int
  executed :: "(stmt \<times> val list) list"

text \<open>Parameter binding of the driver: \<open>undefined\<close> is sent as NULL.\<close>

definition prepareValue :: "val \<Rightarrow> val" where
  "prepareValue v = (if v = VUndefined then VNull else v)"

definition param :: "val list \<Rightarrow> nat \<Rightarrow> val" where
  "param ps n = prepareValue (ps ! (n - 1))"

fun cond_column :: "cond \<Rightarrow> string" where
  "cond_column (ILIKE c n) = c"
| "cond_column (EQ c n) = c"

fun cond_placeholder :: "cond \<Rightarrow> nat" where
  "cond_placeholder (ILIKE c n) = n"
| "cond_placeholder (EQ c n) = n"

fun wher_conds :: "wher \<Rightarrow> cond list" where
  "wher_conds (AllOf cs) = cs"
| "wher_conds (AnyOf cs) = cs"

fun placeholders :: "stmt \<Rightarrow> nat list" where
  "placeholders (Select w ord lmt) =
     map cond_placeholder (wher_conds w) @ (case lmt of None \<Rightarrow> [] | Some (l, off) \<Rightarrow> [l, off])"
| "placeholders (SelectCount w) = map cond_placeholder (wher_conds w)"
| "placeholders (Insert cols phs) = phs"
| "placeholders (Update sets w) = map snd sets @ [cond_placeholder w]"
| "placeholders (Delete w) = [cond_placeholder w]"

fun named_columns :: "stmt \<Rightarrow> string list" where
  "named_columns (Select w ord lmt) =
     map cond_column (wher_conds w) @ (case ord of None \<Rightarrow> [] | Some (c, dir) \<Rightarrow> [c])"
| "named_columns (SelectCount w) = map cond_column (wher_conds w)"
| "named_columns (Insert cols phs) = cols"
| "named_columns (Update sets w) = map fst sets @ [cond_column w]"
| "named_columns (Delete w) = [cond_column w]"

text \<open>The number of parameters a statement requires is its highest placeholder.\<close>

definition required :: "stmt \<Rightarrow> nat" where
  "required sql = fold max (placeholders sql) 0"

definition pg_error :: "string \<Rightarrow> val \<Rightarrow> error" where
  "pg_error code detail = PgError (VStr code) detail (RawMsg code)"

text \<open>
  A comparison with NULL is never true, and a row is selected only where the condition
  is true: with AND and OR alone, reading "unknown" as "false" selects the same rows.
\<close>

fun eval_cond :: "val list \<Rightarrow> obj \<Rightarrow> cond \<Rightarrow> bool" where
  "eval_cond ps r (ILIKE c n) =
     (case r c of
        VStr s \<Rightarrow> (case param ps n of VStr pat \<Rightarrow> ilike s pat | _ \<Rightarrow> False)
      | _ \<Rightarrow> False)"
| "eval_cond ps r (EQ c n) = (r c \<noteq> VNull \<and> r c = param ps n)"

fun eval_where :: "val list \<Rightarrow> obj \<Rightarrow> wher \<Rightarrow> bool" where
  "eval_where ps r (AllOf cs) = list_all (eval_cond ps r) cs"
| "eval_where ps r (AnyOf cs) = list_ex (eval_cond ps r) cs"

text \<open>
  ORDER BY: ascending puts NULL last, descending is the reverse. Strings compare
  lexicographically by character code; a column holds values of one type.
\<close>

fun sort_rank :: "val \<Rightarrow> nat \<times> rat \<times> string" where
  "sort_rank (VBool b) = (0, of_bool b, [])"
| "sort_rank (VInt n) = (0, of_int n, [])"
| "sort_rank (VDec r) = (0, r, [])"
| "sort_rank (VDate t) = (0, of_nat t, [])"
| "sort_rank (VStr s) = (0, 0, s)"
| "sort_rank VNull = (1, 0, [])"
| "sort_rank VUndefined = (1, 0, [])"

definition order_by :: "(string \<times> string) option \<Rightarrow> obj list \<Rightarrow> error + obj list" where
  "order_by ord rs =
     (case ord of
        None \<Rightarrow> Inr rs
      | Some (c, dir) \<Rightarrow>
          if dir = ''ASC'' then Inr (sort_key (\<lambda>r. sort_rank (r c)) rs)
          else if dir = ''DESC'' then Inr (rev (sort_key (\<lambda>r. sort_rank (r c)) rs))
          else Inl (pg_error ''42601'' VUndefined))"

definition limit_offset :: "val list \<Rightarrow> (nat \<times> nat) option \<Rightarrow> obj list \<Rightarrow> error + obj list" where
  "limit_offset ps lmt rs =
     (case lmt of
        None \<Rightarrow> Inr rs
      | Some (l, off) \<Rightarrow>
          (case (param ps l, param ps off) of
             (VInt n, VInt k) \<Rightarrow>
               if n < 0 then Inl (pg_error ''2201W'' VUndefined)
               else if k < 0 then Inl (pg_error ''2201X'' VUndefined)
               else Inr (take (nat n) (drop (nat k) rs))
           | _ \<Rightarrow> Inl (pg_error ''22P02'' VUndefined)))"

text \<open>The constraints of the table, checked on the rows a statement would leave.\<close>

fun first_dup :: "val list \<Rightarrow> val option" where
  "first_dup [] = None"
| "first_dup (v # vs) = (if v \<noteq> VNull \<and> v \<in> set vs then Some v else first_dup vs)"

definition key_detail :: "string \<Rightarrow> val \<Rightarrow> val" where
  "key_detail c v =
     VStr (''Key ('' @ c @ '')=('' @ (case v of VStr s \<Rightarrow> s | _ \<Rightarrow> []) @ '') already exists.'')"

definition violation :: "obj list \<Rightarrow> error option" where
  "violation rs =
     (if list_ex (\<lambda>r. r ''title'' = VNull \<or> r ''author'' = VNull \<or> r ''id'' = VNull) rs
      then Some (pg_error ''23502'' VUndefined)
      else case first_dup (map (\<lambda>r. r ''id'') rs) of
        Some v \<Rightarrow> Some (pg_error ''23505'' (key_detail ''id'' v))
      | None \<Rightarrow>
          (case first_dup (map (\<lambda>r. r ''isbn'') rs) of
             Some v \<Rightarrow> Some (pg_error ''23505'' (key_detail ''isbn'' v))
           | None \<Rightarrow> None))"

text \<open>
  The row an INSERT builds before its named columns are assigned: \<open>id\<close> from the
  sequence, \<open>in_stock\<close> true, both timestamps the current time, every other column NULL.
\<close>

definition default_row :: "int \<Rightarrow> nat \<Rightarrow> obj" where
  "default_row i now =
     (\<lambda>k. if k = ''id'' then VInt i
          else if k = ''in_stock'' then VBool True
          else if k = ''created_at'' \<or> k = ''updated_at'' then VDate now
          else if k \<in> set columns then VNull
          else VUndefined)"

definition assign :: "val list \<Rightarrow> (string \<times> nat) list \<Rightarrow> obj \<Rightarrow> obj" where
  "assign ps sets r = fold (\<lambda>cn r'. r'(fst cn := param ps (snd cn))) sets r"

text \<open>The BEFORE UPDATE trigger: \<open>NEW.updated_at = CURRENT_TIMESTAMP\<close>.\<close>

definition update_updated_at_column :: "nat \<Rightarrow> obj \<Rightarrow> obj" where
  "update_updated_at_column now r = r(''updated_at'' := VDate now)"

fun exec :: "stmt \<Rightarrow> val list \<Rightarrow> nat \<Rightarrow> db \<Rightarrow> (error + result) \<times> db" where
  "exec (Select w ord lmt) ps now d =
     (case order_by ord (filter (\<lambda>r. eval_where ps r w) (rows d)) of
        Inl e \<Rightarrow> (Inl e, d)
      | Inr sorted_rows \<Rightarrow>
          (case limit_offset ps lmt sorted_rows of
             Inl e \<Rightarrow> (Inl e, d)
           | Inr window \<Rightarrow> (Inr (Rows window), d)))"
| "exec (SelectCount w) ps now d =
     (Inr (Total (length (filter (\<lambda>r. eval_where ps r w) (rows d)))), d)"
| "exec (Insert cols phs) ps now d =
     (if length cols \<noteq> length phs then (Inl (pg_error ''42601'' VUndefined), d)
      else
        let r = assign ps (zip cols phs) (default_row (next_id d) now);
            d' = d\<lparr>next_id := next_id d + 1\<rparr>
        in case violation (rows d @ [r]) of
             Some e \<Rightarrow> (Inl e, d')
           | None \<Rightarrow> (Inr (Rows [r]), d'\<lparr>rows := rows d @ [r]\<rparr>))"
| "exec (Update sets w) ps now d =
     (let upd = (\<lambda>r. update_updated_at_column now (assign ps sets r));
          rows' = map (\<lambda>r. if eval_cond ps r w then upd r else r) (rows d)
      in case violation rows' of
           Some e \<Rightarrow> (Inl e, d)
         | None \<Rightarrow> (Inr (Rows (map upd (filter (\<lambda>r. eval_cond ps r w) (rows d)))),
                     d\<lparr>rows := rows'\<rparr>))"
| "exec (Delete w) ps now d =
     (Inr (Rows (filter (\<lambda>r. eval_cond ps r w) (rows d))),
      d\<lparr>rows := filter (\<lambda>r. \<not> eval_cond ps r w) (rows d)\<rparr>)"

text \<open>
  \<open>query\<close> of \<open>config/database.js\<close>: the statement is logged, run by the pool, and
  an error of the store is thrown again to the caller. The store refuses a statement
  whose parameters are not as many as it requires, one with a placeholder \<open>$0\<close>, and
  one that names a column the table does not have; so \<open>param\<close> reads within the
  parameter list wherever a statement runs.
\<close>

definition query :: "stmt \<Rightarrow> val list \<Rightarrow> env \<Rightarrow> db \<Rightarrow> (error + result) \<times> db" where
  "query sql params e d =
     (let d1 = d\<lparr>executed := executed d @ [(sql, params)]\<rparr> in
      if length params \<noteq> required sql then (Inl (pg_error ''08P01'' VUndefined), d1)
      else if list_ex (\<lambda>n. n = 0) (placeholders sql) then (Inl (pg_error ''42P02'' VUndefined), d1)
      else if \<not> list_all (\<lambda>c. c \<in> set columns) (named_columns sql)
        then (Inl (pg_error ''42703'' VUndefined), d1)
      else exec sql params (clock e) d1)"

section \<open>The repository: \<open>models/Book.js\<close>\<close>

text \<open>
  Every call of the repository is \<open>await\<close>ed: its result is used by what follows, and an
  error thrown by it ends the caller.
\<close>

definition await :: "(error + 'a) \<times> db \<Rightarrow> ('a \<Rightarrow> db \<Rightarrow> (error + 'b) \<times> db) \<Rightarrow> (error + 'b) \<times> db" where
  "await m f = (case m of (Inl err, d) \<Rightarrow> (Inl err, d) | (Inr x, d) \<Rightarrow> f x d)"

text \<open>\<open>result.rows[0]\<close> is \<open>undefined\<close> when there is no row.\<close>

definition first_row :: "result \<Rightarrow> jv" where
  "first_row res = (case result_rows res of [] \<Rightarrow> JVal VUndefined | r # rs \<Rightarrow> JRow r)"

fun jtruthy :: "jv \<Rightarrow> bool" where
  "jtruthy (JVal v) = truthy v"
| "jtruthy j = True"

fun jget :: "jv \<Rightarrow> string \<Rightarrow> val" where
  "jget (JRow r) k = r k"
| "jget j k = VUndefined"

definition or_null :: "jv \<Rightarrow> jv" where
  "or_null j = (if jtruthy j then j else JVal VNull)"

definition findById :: "val \<Rightarrow> env \<Rightarrow> db \<Rightarrow> (error + jv) \<times> db" where
  "findById i e d =
     await (query (Select (AllOf [EQ ''id'' 1]) None None) [i] e d)
       (\<lambda>result d1. (Inr (or_null (first_row result)), d1))"

definition findByIsbn :: "val \<Rightarrow> env \<Rightarrow> db \<Rightarrow> (error + jv) \<times> db" where
  "findByIsbn isbn e d =
     await (query (Select (AllOf [EQ ''isbn'' 1]) None None) [isbn] e d)
       (\<lambda>result d1. (Inr (or_null (first_row result)), d1))"

definition create :: "obj \<Rightarrow> env \<Rightarrow> db \<Rightarrow> (error + jv) \<times> db" where
  "create bookData e d =
     (let in_stock = (if bookData ''in_stock'' = VUndefined then VBool True
                      else bookData ''in_stock'');
          sql = Insert [''title'', ''author'', ''isbn'', ''publication_year'', ''genre'', ''pages'',
                        ''description'', ''price'', ''in_stock'']
                       [1, 2, 3, 4, 5, 6, 7, 8, 9];
          params = [bookData ''title'', bookData ''author'', bookData ''isbn'',
                    bookData ''publication_year'', bookData ''genre'', bookData ''pages'',
                    bookData ''description'', bookData ''price'', in_stock]
      in await (query sql params e d) (\<lambda>result d1. (Inr (first_row result), d1)))"

definition fields :: "string list" where
  "fields = [''title'', ''author'', ''isbn'', ''publication_year'', ''genre'', ''pages'',
             ''description'', ''price'', ''in_stock'']"

text \<open>
  The loop of \<open>update\<close> over \<open>fields\<close>, with its three variables \<open>updates\<close>,
  \<open>params\<close> and \<open>paramIndex\<close>.
\<close>

fun update_loop ::
  "obj \<Rightarrow> string list \<Rightarrow> (string \<times> nat) list \<Rightarrow> val list \<Rightarrow> nat
   \<Rightarrow> (string \<times> nat) list \<times> val list \<times> nat" where
  "update_loop bookData [] updates params paramIndex = (updates, params, paramIndex)"
| "update_loop bookData (field # rest) updates params paramIndex =
     (if bookData field \<noteq> VUndefined
      then update_loop bookData rest (updates @ [(field, paramIndex)])
             (params @ [bookData field]) (paramIndex + 1)
      else update_loop bookData rest updates params paramIndex)"

definition update :: "val \<Rightarrow> obj \<Rightarrow> env \<Rightarrow> db \<Rightarrow> (error + jv) \<times> db" where
  "update i bookData e d =
     await (findById i e d) (\<lambda>existingBook d1.
       if \<not> jtruthy existingBook then (Inr (JVal VNull), d1)
       else
         case update_loop bookData fields [] [] 1 of
           (updates, params, paramIndex) \<Rightarrow>
             if length updates = 0 then (Inr existingBook, d1)
             else
               await (query (Update updates (EQ ''id'' paramIndex)) (params @ [i]) e d1)
                 (\<lambda>result d2. (Inr (first_row result), d2)))"

definition delete :: "val \<Rightarrow> env \<Rightarrow> db \<Rightarrow> (error + bool) \<times> db" where
  "delete i e d =
     await (query (Delete (EQ ''id'' 1)) [i] e d)
       (\<lambda>result d1. (Inr (length (result_rows result) > 0), d1))"

definition search :: "string \<Rightarrow> env \<Rightarrow> db \<Rightarrow> (error + obj list) \<times> db" where
  "search searchTerm e d =
     await (query (Select (AnyOf [ILIKE ''title'' 1, ILIKE ''author'' 1, ILIKE ''description'' 1])
                     (Some (''title'', ''ASC'')) None)
              [VStr (''%'' @ searchTerm @ ''%'')] e d)
       (\<lambda>result d1. (Inr (result_rows result), d1))"

subsection \<open>\<open>findAll\<close>\<close>

definition allowedSortFields :: "string list" where
  "allowedSortFields = [''id'', ''title'', ''author'', ''publication_year'', ''price'', ''created_at'']"

text \<open>
  \<open>Math.ceil(total / limit)\<close>; the quotient is not finite when \<open>limit\<close> is 0, and
  \<open>None\<close> stands for that.
\<close>

definition ceil_div :: "int \<Rightarrow> int \<Rightarrow> int option" where
  "ceil_div n lmt = (if lmt = 0 then None else Some \<lceil>(of_int n :: rat) / of_int lmt\<rceil>)"

text \<open>
  The three filters, in the order of the source; each adds its condition and its parameter
  and moves \<open>paramIndex\<close> on. \<open>if (genre)\<close> is false for an absent and for an
  empty string.
\<close>

definition where_genre :: "options \<Rightarrow> cond list \<times> val list \<times> nat" where
  "where_genre opts =
     (case genre opts of
        None \<Rightarrow> ([], [], 1)
      | Some g \<Rightarrow>
          if g \<noteq> [] then ([ILIKE ''genre'' 1], [VStr (''%'' @ g @ ''%'')], 2)
          else ([], [], 1))"

definition where_author :: "options \<Rightarrow> cond list \<times> val list \<times> nat \<Rightarrow> cond list \<times> val list \<times> nat" where
  "where_author opts acc =
     (case acc of (whereConditions, params, paramIndex) \<Rightarrow>
        (case author opts of
           None \<Rightarrow> acc
         | Some a \<Rightarrow>
             if a \<noteq> []
             then (whereConditions @ [ILIKE ''author'' paramIndex],
                   params @ [VStr (''%'' @ a @ ''%'')], paramIndex + 1)
             else acc))"

definition where_inStock :: "options \<Rightarrow> cond list \<times> val list \<times> nat \<Rightarrow> cond list \<times> val list \<times> nat" where
  "where_inStock opts acc =
     (case acc of (whereConditions, params, paramIndex) \<Rightarrow>
        (case inStock opts of
           Some b \<Rightarrow>
             (whereConditions @ [EQ ''in_stock'' paramIndex], params @ [VBool b], paramIndex + 1)
         | None \<Rightarrow> acc))"

definition findAll :: "options \<Rightarrow> env \<Rightarrow> db \<Rightarrow> (error + list_result) \<times> db" where
  "findAll opts e d =
     (let page_v = (case page opts of None \<Rightarrow> 1 | Some p \<Rightarrow> p);
          limit_v = (case limit opts of None \<Rightarrow> 10 | Some l \<Rightarrow> l);
          sortBy_v = (case sortBy opts of None \<Rightarrow> ''created_at'' | Some s \<Rightarrow> s);
          sortOrder_v = (case sortOrder opts of None \<Rightarrow> ''DESC'' | Some s \<Rightarrow> s);
          offset = (page_v - 1) * limit_v
      in case where_inStock opts (where_author opts (where_genre opts)) of
        (whereConditions, params0, paramIndex) \<Rightarrow>
          let safeSortBy = (if sortBy_v \<in> set allowedSortFields then sortBy_v else ''created_at'');
              safeSortOrder = (if toUpperCase sortOrder_v = ''ASC'' then ''ASC'' else ''DESC'');
              sql = Select (AllOf whereConditions) (Some (safeSortBy, safeSortOrder))
                      (Some (paramIndex, paramIndex + 1));
              params = params0 @ [VInt limit_v, VInt offset]
          in await (query sql params e d) (\<lambda>result d1.
               let countSql = SelectCount (AllOf whereConditions);
                   countParams = take (length params - 2) params
               in await (query countSql countParams e d1) (\<lambda>countResult d2.
                    case countResult of
                      Total n \<Rightarrow>
                        (Inr \<lparr>data = result_rows result,
                              pagination = \<lparr>currentPage = page_v,
                                             totalPages = ceil_div (int n) limit_v,
                                             totalItems = int n,
                                             itemsPerPage = limit_v\<rparr>\<rparr>, d2)
                    | Rows rs \<Rightarrow> (Inl (OtherError (RawMsg ''TypeError'')), d2))))"

section \<open>Errors: \<open>middleware/errorHandler.js\<close>\<close>

text \<open>The static constructors of \<open>ApiError\<close>; the timestamp is the time of creation.\<close>

definition badRequest :: "env \<Rightarrow> message \<Rightarrow> jv \<Rightarrow> error" where
  "badRequest e msg details = ApiError 400 msg details (clock e)"

definition notFound :: "env \<Rightarrow> message \<Rightarrow> error" where
  "notFound e msg = ApiError 404 msg (JVal VNull) (clock e)"

definition conflict :: "env \<Rightarrow> message \<Rightarrow> jv \<Rightarrow> error" where
  "conflict e msg details = ApiError 409 msg details (clock e)"

definition internal :: "env \<Rightarrow> message \<Rightarrow> error" where
  "internal e msg = ApiError 500 msg (JVal VNull) (clock e)"

fun err_code :: "error \<Rightarrow> val" where
  "err_code (PgError code detail msg) = code"
| "err_code err = VUndefined"

fun err_detail :: "error \<Rightarrow> val" where
  "err_detail (PgError code detail msg) = detail"
| "err_detail err = VUndefined"

fun err_message :: "error \<Rightarrow> jv" where
  "err_message (PgError code detail msg) = JMsg msg"
| "err_message (ApiError sc msg details ts) = JMsg msg"
| "err_message (ValidationResult errs) = JVal VUndefined"
| "err_message (OtherError msg) = JMsg msg"

definition errorHandler :: "env \<Rightarrow> error \<Rightarrow> response" where
  "errorHandler e err =
     (let timestamp = JVal (VDate (clock e)) in
      if truthy (err_code err) \<and> err_code err = VStr ''23505'' then
        \<lparr>status = 409,
         body = json [(''success'', JVal (VBool False)), (''error'', JMsg DuplicateRecordMsg),
                      (''details'', JVal (err_detail err)), (''timestamp'', timestamp)]\<rparr>
      else if truthy (err_code err) \<and> err_code err = VStr ''23503'' then
        \<lparr>status = 400,
         body = json [(''success'', JVal (VBool False)), (''error'', JMsg ForeignKeyMsg),
                      (''details'', JVal (err_detail err)), (''timestamp'', timestamp)]\<rparr>
      else if truthy (err_code err) \<and> err_code err = VStr ''22P02'' then
        \<lparr>status = 400,
         body = json [(''success'', JVal (VBool False)), (''error'', JMsg BadFormatMsg),
                      (''timestamp'', timestamp)]\<rparr>
      else if truthy (err_code err) \<and> err_code err = VStr ''ECONNREFUSED'' then
        \<lparr>status = 503,
         body = json [(''success'', JVal (VBool False)), (''error'', JMsg DbUnavailableMsg),
                      (''timestamp'', timestamp)]\<rparr>
      else
        case err of
          ApiError statusCode msg details ts \<Rightarrow>
            \<lparr>status = statusCode,
             body = json [(''success'', JVal (VBool False)), (''error'', JMsg msg),
                          (''details'', details), (''timestamp'', JVal (VDate ts))]\<rparr>
        | ValidationResult errs \<Rightarrow>
            \<lparr>status = 400,
             body = json [(''success'', JVal (VBool False)), (''error'', JMsg ValidationMsg),
                          (''details'', errs), (''timestamp'', timestamp)]\<rparr>
        | _ \<Rightarrow>
            \<lparr>status = 500,
             body = json [(''success'', JVal (VBool False)),
                          (''error'', if production e then JMsg InternalMsg else err_message err),
                          (''timestamp'', timestamp)]\<rparr>)"

section \<open>The handlers: \<open>routes/books.js\<close>\<close>

text \<open>
  A handler is \<open>try { ... } catch (error) { next(error) }\<close>: what its body throws goes
  to \<open>errorHandler\<close>. The body is the function named \<open>_body\<close>; the handler is the body
  under \<open>catch_next\<close>.
\<close>

definition catch_next :: "env \<Rightarrow> (error + response) \<times> db \<Rightarrow> response \<times> db" where
  "catch_next e r = (case r of (Inl err, d) \<Rightarrow> (errorHandler e err, d) | (Inr res, d) \<Rightarrow> (res, d))"

definition get_body :: "env \<Rightarrow> val \<Rightarrow> db \<Rightarrow> (error + response) \<times> db" where
  "get_body e i d =
     await (findById i e d) (\<lambda>book d1.
       if \<not> jtruthy book then (Inl (notFound e (NotFoundMsg i)), d1)
       else (Inr \<lparr>status = 200, body = json [(''success'', JVal (VBool True)), (''data'', book)]\<rparr>, d1))"

definition get_handler :: "env \<Rightarrow> val \<Rightarrow> db \<Rightarrow> response \<times> db" where
  "get_handler e i d = catch_next e (get_body e i d)"

text \<open>The uniqueness check on the isbn, as the POST handler writes it.\<close>

definition post_isbn_check :: "env \<Rightarrow> val \<Rightarrow> db \<Rightarrow> (error + unit) \<times> db" where
  "post_isbn_check e isbn d =
     (if truthy isbn then
        await (findByIsbn isbn e d) (\<lambda>existingBook d1.
          if jtruthy existingBook
          then (Inl (conflict e IsbnExistsMsg (JObj [(''isbn'', JVal isbn)])), d1)
          else (Inr (), d1))
      else (Inr (), d))"

definition post_body :: "env \<Rightarrow> obj \<Rightarrow> db \<Rightarrow> (error + response) \<times> db" where
  "post_body e reqbody d =
     await (post_isbn_check e (reqbody ''isbn'') d) (\<lambda>u d1.
       await (create (\<lambda>k. if k \<in> set fields then reqbody k else VUndefined) e d1) (\<lambda>newBook d2.
         (Inr \<lparr>status = 201,
               body = json [(''success'', JVal (VBool True)), (''message'', JMsg CreatedMsg),
                            (''data'', newBook)]\<rparr>, d2)))"

definition post_handler :: "env \<Rightarrow> obj \<Rightarrow> db \<Rightarrow> response \<times> db" where
  "post_handler e reqbody d = catch_next e (post_body e reqbody d)"

definition put_body :: "env \<Rightarrow> val \<Rightarrow> obj \<Rightarrow> db \<Rightarrow> (error + response) \<times> db" where
  "put_body e i reqbody d =
     await (findById i e d) (\<lambda>book d1.
       if \<not> jtruthy book then (Inl (notFound e (NotFoundMsg i)), d1)
       else
         await
           (if truthy (reqbody ''isbn'') \<and> reqbody ''isbn'' \<noteq> jget book ''isbn'' then
              await (findByIsbn (reqbody ''isbn'') e d1) (\<lambda>existingBook d2.
                if jtruthy existingBook
                then (Inl (conflict e IsbnExistsMsg (JObj [(''isbn'', JVal (reqbody ''isbn''))])), d2)
                else (Inr (), d2))
            else (Inr (), d1))
           (\<lambda>u d3.
              await (update i reqbody e d3) (\<lambda>updatedBook d4.
                (Inr \<lparr>status = 200,
                      body = json [(''success'', JVal (VBool True)), (''message'', JMsg UpdatedMsg),
                                   (''data'', updatedBook)]\<rparr>, d4))))"

definition put_handler :: "env \<Rightarrow> val \<Rightarrow> obj \<Rightarrow> db \<Rightarrow> response \<times> db" where
  "put_handler e i reqbody d = catch_next e (put_body e i reqbody d)"

definition patch_body :: "env \<Rightarrow> val \<Rightarrow> obj \<Rightarrow> db \<Rightarrow> (error + response) \<times> db" where
  "patch_body e i reqbody d =
     await (findById i e d) (\<lambda>book d1.
       if \<not> jtruthy book then (Inl (notFound e (NotFoundMsg i)), d1)
       else
         await
           (if truthy (reqbody ''isbn'') \<and> reqbody ''isbn'' \<noteq> jget book ''isbn'' then
              await (findByIsbn (reqbody ''isbn'') e d1) (\<lambda>existingBook d2.
                if jtruthy existingBook
                then (Inl (conflict e IsbnExistsMsg (JObj [(''isbn'', JVal (reqbody ''isbn''))])), d2)
                else (Inr (), d2))
            else (Inr (), d1))
           (\<lambda>u d3.
              await (update i reqbody e d3) (\<lambda>updatedBook d4.
                (Inr \<lparr>status = 200,
                      body = json [(''success'', JVal (VBool True)), (''message'', JMsg UpdatedMsg),
                                   (''data'', updatedBook)]\<rparr>, d4))))"

definition patch_handler :: "env \<Rightarrow> val \<Rightarrow> obj \<Rightarrow> db \<Rightarrow> response \<times> db" where
  "patch_handler e i reqbody d = catch_next e (patch_body e i reqbody d)"

definition delete_body :: "env \<Rightarrow> val \<Rightarrow> db \<Rightarrow> (error + response) \<times> db" where
  "delete_body e i d =
     await (delete i e d) (\<lambda>deleted d1.
       if \<not> deleted then (Inl (notFound e (NotFoundMsg i)), d1)
       else (Inr \<lparr>status = 200,
                  body = json [(''success'', JVal (VBool True)), (''message'', JMsg (DeletedMsg i))]\<rparr>,
             d1))"

definition delete_handler :: "env \<Rightarrow> val \<Rightarrow> db \<Rightarrow> response \<times> db" where
  "delete_handler e i d = catch_next e (delete_body e i d)"

definition search_body :: "env \<Rightarrow> string \<Rightarrow> db \<Rightarrow> (error + response) \<times> db" where
  "search_body e q d =
     await (search q e d) (\<lambda>books d1.
       (Inr \<lparr>status = 200,
             body = json [(''success'', JVal (VBool True)), (''count'', JVal (VInt (int (length books)))),
                          (''data'', JRows books)]\<rparr>, d1))"

definition search_handler :: "env \<Rightarrow> string \<Rightarrow> db \<Rightarrow> response \<times> db" where
  "search_handler e q d = catch_next e (search_body e q d)"

subsection \<open>The list request\<close>

text \<open>
  \<open>parseInt\<close> of the language, without a radix: leading white space is skipped, a sign
  is read, \<open>0x\<close> selects radix 16, and the longest prefix of digits is the value;
  \<open>None\<close> is \<open>NaN\<close>.
\<close>

fun index_of :: "'a \<Rightarrow> 'a list \<Rightarrow> nat option" where
  "index_of x [] = None"
| "index_of x (y # ys) = (if x = y then Some 0 else map_option Suc (index_of x ys))"

definition digit_of :: "char \<Rightarrow> nat option" where
  "digit_of c = index_of (lower_char c) ''0123456789abcdef''"

definition is_digit :: "nat \<Rightarrow> char \<Rightarrow> bool" where
  "is_digit radix c = (case digit_of c of None \<Rightarrow> False | Some v \<Rightarrow> v < radix)"

definition digits_value :: "nat \<Rightarrow> string \<Rightarrow> int" where
  "digits_value radix ds =
     foldl (\<lambda>a c. a * int radix + (case digit_of c of None \<Rightarrow> 0 | Some v \<Rightarrow> int v)) 0 ds"

definition is_space :: "char \<Rightarrow> bool" where
  "is_space c = (c \<in> set [CHR 0x09, CHR 0x0A, CHR 0x0B, CHR 0x0C, CHR 0x0D, CHR '' ''])"

definition parseInt :: "string \<Rightarrow> int option" where
  "parseInt str =
     (let s0 = dropWhile is_space str;
          sign = (if take 1 s0 = ''-'' then - 1 else 1);
          s1 = (if take 1 s0 = ''-'' \<or> take 1 s0 = ''+'' then drop 1 s0 else s0);
          radix = (if take 2 s1 = ''0x'' \<or> take 2 s1 = ''0X'' then 16 else 10);
          s2 = (if take 2 s1 = ''0x'' \<or> take 2 s1 = ''0X'' then drop 2 s1 else s1);
          z = takeWhile (is_digit radix) s2
      in if z = [] then None else Some (sign * digits_value radix z))"

text \<open>
  The validators of the validation library that \<open>listBooksValidation\<close> uses, on the
  string of a query parameter. \<open>isInt\<close>: an optional sign and decimal digits, and the
  value within the bounds given. \<open>isIn\<close>: membership. \<open>isBoolean\<close>: one of the four
  strings \<open>true\<close>, \<open>false\<close>, \<open>1\<close>, \<open>0\<close>.
\<close>

definition int_of_string :: "string \<Rightarrow> int option" where
  "int_of_string str =
     (let ds = (if take 1 str = ''-'' \<or> take 1 str = ''+'' then drop 1 str else str)
      in if ds \<noteq> [] \<and> list_all (is_digit 10) ds
         then Some ((if take 1 str = ''-'' then - 1 else 1) * digits_value 10 ds)
         else None)"

definition isInt :: "int option \<Rightarrow> int option \<Rightarrow> string \<Rightarrow> bool" where
  "isInt mn mx str =
     (case int_of_string str of
        None \<Rightarrow> False
      | Some n \<Rightarrow> (case mn of None \<Rightarrow> True | Some lo \<Rightarrow> lo \<le> n)
                \<and> (case mx of None \<Rightarrow> True | Some hi \<Rightarrow> n \<le> hi))"

definition isIn :: "string list \<Rightarrow> string \<Rightarrow> bool" where
  "isIn values str = (str \<in> set values)"

definition isBoolean :: "string \<Rightarrow> bool" where
  "isBoolean str = (str \<in> set [''true'', ''false'', ''1'', ''0''])"

text \<open>
  A rule \<open>query(field).optional().check().withMessage(msg)\<close>: nothing when the parameter
  is absent, else one error \<open>{field, message, value}\<close> when the check fails.
\<close>

definition optional_rule :: "string \<Rightarrow> string option \<Rightarrow> (string \<Rightarrow> bool) \<Rightarrow> string \<Rightarrow> jv list" where
  "optional_rule field v check msg =
     (case v of
        None \<Rightarrow> []
      | Some str \<Rightarrow>
          if check str then []
          else [JObj [(''field'', JVal (VStr field)), (''message'', JMsg (RawMsg msg)),
                      (''value'', JVal (VStr str))]])"

definition listBooksValidation :: "list_query \<Rightarrow> jv list" where
  "listBooksValidation q =
     optional_rule ''page'' (q_page q) (isInt (Some 1) None) ''page must be a positive integer''
     @ optional_rule ''limit'' (q_limit q) (isInt (Some 1) (Some 100)) ''limit must be from 1 to 100''
     @ optional_rule ''sortBy'' (q_sortBy q)
         (isIn [''id'', ''title'', ''author'', ''publication_year'', ''price'', ''created_at''])
         ''sortBy is one of id, title, author, publication_year, price, created_at''
     @ optional_rule ''sortOrder'' (q_sortOrder q) (isIn [''ASC'', ''DESC'', ''asc'', ''desc''])
         ''sortOrder is ASC or DESC''
     @ optional_rule ''inStock'' (q_inStock q) isBoolean ''inStock must be a boolean''"

text \<open>\<open>validate\<close>: the response that ends the request when a rule has failed.\<close>

definition validate :: "env \<Rightarrow> jv list \<Rightarrow> response option" where
  "validate e errors =
     (if errors \<noteq> [] then
        Some \<lparr>status = 400,
              body = json [(''success'', JVal (VBool False)), (''error'', JMsg ValidationDataMsg),
                           (''details'', JList errors), (''timestamp'', JVal (VDate (clock e)))]\<rparr>
      else None)"

text \<open>\<open>x || dflt\<close> on a number (\<open>NaN\<close> and 0 are falsy) and on a string.\<close>

definition or_int :: "int option \<Rightarrow> int \<Rightarrow> int" where
  "or_int x dflt = (case x of None \<Rightarrow> dflt | Some n \<Rightarrow> if n = 0 then dflt else n)"

definition or_string :: "string option \<Rightarrow> string \<Rightarrow> string" where
  "or_string x dflt = (case x of None \<Rightarrow> dflt | Some s \<Rightarrow> if s = [] then dflt else s)"

definition list_options :: "list_query \<Rightarrow> options" where
  "list_options q =
     \<lparr>page = Some (or_int (case q_page q of None \<Rightarrow> None | Some s \<Rightarrow> parseInt s) 1),
      limit = Some (or_int (case q_limit q of None \<Rightarrow> None | Some s \<Rightarrow> parseInt s) 10),
      sortBy = Some (or_string (q_sortBy q) ''created_at''),
      sortOrder = Some (or_string (q_sortOrder q) ''DESC''),
      genre = q_genre q,
      author = q_author q,
      inStock = (case q_inStock q of None \<Rightarrow> None | Some s \<Rightarrow> Some (s = ''true''))\<rparr>"

definition pagination_json :: "pagination \<Rightarrow> jv" where
  "pagination_json p =
     JObj [(''currentPage'', JVal (VInt (currentPage p))),
           (''totalPages'', JVal (case totalPages p of None \<Rightarrow> VNull | Some n \<Rightarrow> VInt n)),
           (''totalItems'', JVal (VInt (totalItems p))),
           (''itemsPerPage'', JVal (VInt (itemsPerPage p)))]"

definition list_body :: "env \<Rightarrow> list_query \<Rightarrow> db \<Rightarrow> (error + response) \<times> db" where
  "list_body e q d =
     await (findAll (list_options q) e d) (\<lambda>result d1.
       (Inr \<lparr>status = 200,
             body = json [(''success'', JVal (VBool True)), (''data'', JRows (data result)),
                          (''pagination'', pagination_json (pagination result))]\<rparr>, d1))"

definition list_handler :: "env \<Rightarrow> list_query \<Rightarrow> db \<Rightarrow> response \<times> db" where
  "list_handler e q d = catch_next e (list_body e q d)"

text \<open>The route: the validation chain, then the handler.\<close>

definition list_route :: "env \<Rightarrow> list_query \<Rightarrow> db \<Rightarrow> response \<times> db" where
  "list_route e q d =
     (case validate e (listBooksValidation q) of
        Some res \<Rightarrow> (res, d)
      | None \<Rightarrow> list_handler e q d)"

section \<open>Notions used to state the properties\<close>

text \<open>
  The fields of \<open>fields\<close> that an input has (\<open>bookData[field] !== undefined\<close>), the
  row an UPDATE with these fields leaves, the rows a lookup selects, and the statements
  the repository submits, as they appear in the log.
\<close>

definition present_fields :: "obj \<Rightarrow> string list" where
  "present_fields bookData = filter (\<lambda>f. bookData f \<noteq> VUndefined) fields"

definition updated_row :: "obj \<Rightarrow> nat \<Rightarrow> obj \<Rightarrow> obj" where
  "updated_row bookData now r =
     (\<lambda>k. if k = ''updated_at'' then VDate now
          else if k \<in> set fields \<and> bookData k \<noteq> VUndefined then prepareValue (bookData k)
          else r k)"

definition has_id :: "val \<Rightarrow> obj \<Rightarrow> bool" where
  "has_id i r = (r ''id'' \<noteq> VNull \<and> r ''id'' = prepareValue i)"

definition has_isbn :: "val \<Rightarrow> obj \<Rightarrow> bool" where
  "has_isbn v r = (r ''isbn'' \<noteq> VNull \<and> r ''isbn'' = prepareValue v)"

definition select_by_id :: "val \<Rightarrow> stmt \<times> val list" where
  "select_by_id i = (Select (AllOf [EQ ''id'' 1]) None None, [i])"

definition select_by_isbn :: "val \<Rightarrow> stmt \<times> val list" where
  "select_by_isbn v = (Select (AllOf [EQ ''isbn'' 1]) None None, [v])"

definition update_stmt :: "obj \<Rightarrow> val \<Rightarrow> stmt \<times> val list" where
  "update_stmt bookData i =
     (Update (zip (present_fields bookData) [1..<Suc (length (present_fields bookData))])
             (EQ ''id'' (Suc (length (present_fields bookData)))),
      map bookData (present_fields bookData) @ [i])"

definition insert_stmt :: "obj \<Rightarrow> stmt \<times> val list" where
  "insert_stmt bookData =
     (Insert fields [1, 2, 3, 4, 5, 6, 7, 8, 9],
      [bookData ''title'', bookData ''author'', bookData ''isbn'', bookData ''publication_year'',
       bookData ''genre'', bookData ''pages'', bookData ''description'', bookData ''price'',
       if bookData ''in_stock'' = VUndefined then VBool True else bookData ''in_stock''])"

definition inserted_row :: "obj \<Rightarrow> int \<Rightarrow> nat \<Rightarrow> obj" where
  "inserted_row bookData i now =
     assign (snd (insert_stmt bookData)) (zip fields [1, 2, 3, 4, 5, 6, 7, 8, 9]) (default_row i now)"

definition logged :: "db \<Rightarrow> (stmt \<times> val list) list \<Rightarrow> db" where
  "logged d sts = d\<lparr>executed := executed d @ sts\<rparr>"

text \<open>
  The characters that are not themselves in a LIKE pattern, and the search as the
  specification words it: a text contains a term as a case-insensitive substring.
\<close>

definition wildcards :: "char list" where
  "wildcards = [CHR ''%'', CHR ''_'', CHR 0x5C]"

definition wildcard_free :: "string \<Rightarrow> bool" where
  "wildcard_free t = list_all (\<lambda>c. c \<notin> set wildcards) t"

definition contains_ci :: "string \<Rightarrow> string \<Rightarrow> bool" where
  "contains_ci s t = sublist (toLowerCase t) (toLowerCase s)"

definition field_contains :: "val \<Rightarrow> string \<Rightarrow> bool" where
  "field_contains v t = (case v of VStr s \<Rightarrow> contains_ci s t | _ \<Rightarrow> False)"

definition matches_term :: "string \<Rightarrow> obj \<Rightarrow> bool" where
  "matches_term t r =
     (field_contains (r ''title'') t \<or> field_contains (r ''author'') t
      \<or> field_contains (r ''description'') t)"

definition search_stmt :: "string \<Rightarrow> stmt \<times> val list" where
  "search_stmt t =
     (Select (AnyOf [ILIKE ''title'' 1, ILIKE ''author'' 1, ILIKE ''description'' 1])
        (Some (''title'', ''ASC'')) None,
      [VStr (''%'' @ t @ ''%'')])"

text \<open>
  The WHERE clause of \<open>findAll\<close> with its parameters, the rows it selects, and the
  ORDER BY of the store on them.
\<close>

definition list_where :: "options \<Rightarrow> cond list \<times> val list \<times> nat" where
  "list_where opts = where_inStock opts (where_author opts (where_genre opts))"

definition list_conds :: "options \<Rightarrow> cond list" where
  "list_conds opts = fst (list_where opts)"

definition list_params :: "options \<Rightarrow> val list" where
  "list_params opts = fst (snd (list_where opts))"

definition list_matching :: "options \<Rightarrow> db \<Rightarrow> obj list" where
  "list_matching opts d =
     filter (\<lambda>r. eval_where (list_params opts) r (AllOf (list_conds opts))) (rows d)"

definition ordered :: "string \<Rightarrow> string \<Rightarrow> obj list \<Rightarrow> obj list" where
  "ordered c dir rs =
     (if dir = ''ASC'' then sort_key (\<lambda>r. sort_rank (r c)) rs
      else rev (sort_key (\<lambda>r. sort_rank (r c)) rs))"

definition opt_page :: "options \<Rightarrow> int" where
  "opt_page opts = (case page opts of None \<Rightarrow> 1 | Some p \<Rightarrow> p)"

definition opt_limit :: "options \<Rightarrow> int" where
  "opt_limit opts = (case limit opts of None \<Rightarrow> 10 | Some l \<Rightarrow> l)"

definition opt_offset :: "options \<Rightarrow> int" where
  "opt_offset opts = (opt_page opts - 1) * opt_limit opts"

definition safeSortBy :: "options \<Rightarrow> string" where
  "safeSortBy opts =
     (if (case sortBy opts of None \<Rightarrow> ''created_at'' | Some s \<Rightarrow> s) \<in> set allowedSortFields
      then (case sortBy opts of None \<Rightarrow> ''created_at'' | Some s \<Rightarrow> s)
      else ''created_at'')"

definition safeSortOrder :: "options \<Rightarrow> string" where
  "safeSortOrder opts =
     (if toUpperCase (case sortOrder opts of None \<Rightarrow> ''DESC'' | Some s \<Rightarrow> s) = ''ASC''
      then ''ASC'' else ''DESC'')"

definition select_page_stmt :: "options \<Rightarrow> stmt \<times> val list" where
  "select_page_stmt opts =
     (Select (AllOf (list_conds opts)) (Some (safeSortBy opts, safeSortOrder opts))
        (Some (Suc (length (list_params opts)), Suc (Suc (length (list_params opts))))),
      list_params opts @ [VInt (opt_limit opts), VInt (opt_offset opts)])"

definition count_stmt :: "options \<Rightarrow> stmt \<times> val list" where
  "count_stmt opts = (SelectCount (AllOf (list_conds opts)), list_params opts)"

definition page_rows :: "options \<Rightarrow> db \<Rightarrow> obj list" where
  "page_rows opts d =
     take (nat (opt_limit opts))
       (drop (nat (opt_offset opts))
          (ordered (safeSortBy opts) (safeSortOrder opts) (list_matching opts d)))"

subsection \<open>Examples\<close>

text \<open>
  A store of two books, an environment, and the requests and inputs that the examples
  below run.
\<close>

definition example_book1 :: obj where
  "example_book1 =
     (default_row 1 0)(''title'' := VStr ''abc'', ''author'' := VStr ''Orwell'',
                       ''isbn'' := VStr ''1234567890'')"

definition example_book2 :: obj where
  "example_book2 =
     (default_row 2 0)(''title'' := VStr ''Zed'', ''author'' := VStr ''Tolstoy'',
                       ''isbn'' := VStr ''0987654321'', ''genre'' := VStr ''Novel'',
                       ''in_stock'' := VBool False)"

definition example_db :: db where
  "example_db = \<lparr>rows = [example_book1, example_book2], next_id = 3, executed = []\<rparr>"

definition example_env :: env where
  "example_env = \<lparr>clock = 5, production = False\<rparr>"

definition no_fields :: obj where
  "no_fields = (\<lambda>k. VUndefined)"

definition no_query :: list_query where
  "no_query = \<lparr>q_page = None, q_limit = None, q_sortBy = None, q_sortOrder = None,
               q_genre = None, q_author = None, q_inStock = None\<rparr>"

definition example_new_book :: obj where
  "example_new_book =
     no_fields(''title'' := VStr ''1984'', ''author'' := VStr ''George Orwell'',
               ''isbn'' := VStr ''1234567890'')"

definition example_new_title :: obj where
  "example_new_title = no_fields(''title'' := VStr ''New'')"

definition example_null_title :: obj where
  "example_null_title = no_fields(''title'' := VNull)"

definition example_null_genre :: obj where
  "example_null_genre = no_fields(''genre'' := VNull)"

definition example_forged :: obj where
  "example_forged =
     no_fields(''title'' := VStr ''T'', ''author'' := VStr ''A'', ''id'' := VInt 99,
               ''created_at'' := VDate 1, ''updated_at'' := VDate 1)"





definition example_in_stock_1 :: list_query where
  "example_in_stock_1 = no_query\<lparr>q_inStock := Some ''1''\<rparr>"

section \<open>Properties of the model\<close>

subsection \<open>The store keeps its constraints\<close>

lemma first_dup_None_inj:
  "first_dup (map f rs) = None \<Longrightarrow> a \<in> set rs \<Longrightarrow> b \<in> set rs \<Longrightarrow> f a = f b
   \<Longrightarrow> f a \<noteq> VNull \<Longrightarrow> a = b"
proof (induction rs)
  case Nil
  then show ?case by simp
next
  case (Cons r rs)
  from Cons.prems(1) have tl: "first_dup (map f rs) = None"
    and hd: "f r = VNull \<or> f r \<notin> f ` set rs"
    by (auto split: if_splits)
  show ?case
  proof (cases "a = r")
    case ar: True
    show ?thesis
    proof (cases "b = r")
      case True
      then show ?thesis using ar by simp
    next
      case False
      then have "b \<in> set rs" using Cons.prems(3) by simp
      moreover have "f r = f b" using Cons.prems(4) ar by simp
      ultimately have "f r \<in> f ` set rs" by (simp add: image_iff) blast
      then show ?thesis using hd Cons.prems(5) ar by simp
    qed
  next
    case ar: False
    then have a: "a \<in> set rs" using Cons.prems(2) by simp
    show ?thesis
    proof (cases "b = r")
      case True
      then have "f r = f a" using Cons.prems(4) by simp
      then have "f r \<in> f ` set rs" using a by (simp add: image_iff) blast
      then show ?thesis using hd Cons.prems(4,5) True by simp
    next
      case False
      then have "b \<in> set rs" using Cons.prems(3) by simp
      then show ?thesis using Cons.IH tl a Cons.prems(4,5) by blast
    qed
  qed
qed

lemma first_dup_filter: "first_dup (map f rs) = None \<Longrightarrow> first_dup (map f (filter P rs)) = None"
proof (induction rs)
  case Nil
  then show ?case by simp
next
  case (Cons r rs)
  from Cons.prems have tl: "first_dup (map f rs) = None"
    and hd: "f r = VNull \<or> f r \<notin> f ` set rs"
    by (auto split: if_splits)
  have "f r \<notin> f ` set (filter P rs)" if "f r \<notin> f ` set rs"
    using that by auto
  then show ?case using hd Cons.IH [OF tl] by auto
qed

lemma violation_None_iff:
  "violation rs = None \<longleftrightarrow>
     \<not> list_ex (\<lambda>r. r ''title'' = VNull \<or> r ''author'' = VNull \<or> r ''id'' = VNull) rs
     \<and> first_dup (map (\<lambda>r. r ''id'') rs) = None
     \<and> first_dup (map (\<lambda>r. r ''isbn'') rs) = None"
  by (auto simp: violation_def split: option.splits)

lemma violation_None_isbn: "violation rs = None \<Longrightarrow> first_dup (map (\<lambda>r. r ''isbn'') rs) = None"
  by (auto simp: violation_def split: if_splits option.splits)

lemma violation_filter: "violation rs = None \<Longrightarrow> violation (filter P rs) = None"
  unfolding violation_None_iff by (auto simp: list_ex_iff first_dup_filter)

lemma violation_null_title:
  "r \<in> set rs \<Longrightarrow> r ''title'' = VNull \<or> r ''author'' = VNull
   \<Longrightarrow> violation rs = Some (pg_error ''23502'' VUndefined)"
  by (auto simp: violation_def list_ex_iff)


lemma exec_keeps_constraints:
  "violation (rows d) = None \<Longrightarrow> violation (rows (snd (exec sql ps now d))) = None"
  by (cases sql) (auto simp: Let_def violation_filter split: sum.splits option.splits)

text \<open>
  Every access to the store is a \<open>query\<close>, and no statement leaves rows that break the
  table's constraints: they are an invariant of the store.
\<close>

lemma query_keeps_constraints:
  "violation (rows d) = None \<Longrightarrow> violation (rows (snd (query sql ps e d))) = None"
  using exec_keeps_constraints [of "d\<lparr>executed := executed d @ [(sql, ps)]\<rparr>" sql ps "clock e"]
  by (simp add: query_def Let_def)



subsection \<open>The lookups\<close>

lemma find_filter: "find P xs = Some x \<Longrightarrow> \<exists>ys. filter P xs = x # ys"
  by (induction xs) (auto split: if_splits)

lemma find_Some_set: "find P xs = Some x \<Longrightarrow> x \<in> set xs \<and> P x"
  by (induction xs) (auto split: if_splits)

lemma has_id_VInt: "has_id (VInt n) = (\<lambda>r. r ''id'' = VInt n)"
  by (auto simp: has_id_def prepareValue_def)

lemma findById_eq:
  "findById i e d =
     (Inr (case filter (has_id i) (rows d) of [] \<Rightarrow> JVal VNull | r # rs \<Rightarrow> JRow r),
      d\<lparr>executed := executed d @ [(Select (AllOf [EQ ''id'' 1]) None None, [i])]\<rparr>)"
  by (simp add: findById_def await_def query_def required_def columns_def order_by_def
      limit_offset_def param_def first_row_def or_null_def has_id_def[abs_def] split: list.splits)

lemma findByIsbn_eq:
  "findByIsbn v e d =
     (Inr (case filter (has_isbn v) (rows d) of [] \<Rightarrow> JVal VNull | r # rs \<Rightarrow> JRow r),
      d\<lparr>executed := executed d @ [select_by_isbn v]\<rparr>)"
  by (simp add: findByIsbn_def await_def query_def required_def columns_def order_by_def
      limit_offset_def param_def first_row_def or_null_def has_isbn_def[abs_def] select_by_isbn_def
      split: list.splits)

subsection \<open>The update\<close>

lemma update_loop_eq:
  "update_loop bookData fs us ps k =
     (us @ zip (filter (\<lambda>f. bookData f \<noteq> VUndefined) fs)
               [k..<k + length (filter (\<lambda>f. bookData f \<noteq> VUndefined) fs)],
      ps @ map bookData (filter (\<lambda>f. bookData f \<noteq> VUndefined) fs),
      k + length (filter (\<lambda>f. bookData f \<noteq> VUndefined) fs))"
proof (induction fs arbitrary: us ps k)
  case Nil
  then show ?case by simp
next
  case (Cons f fs)
  show ?case
  proof (cases "bookData f = VUndefined")
    case True
    then show ?thesis using Cons.IH by simp
  next
    case False
    have "[k..<k + Suc n] = k # [Suc k..<Suc k + n]" for n
      by (simp add: upt_conv_Cons)
    then show ?thesis using False Cons.IH by simp
  qed
qed

lemma fold_max_Max: "fold max xs (a::nat) = Max (insert a (set xs))"
  using Max.set_eq_fold [of a xs] by simp

lemma fold_max_upt: "fold max ([1..<Suc m] @ [Suc m]) (0::nat) = Suc m"
proof -
  have "fold max xs (a::nat) = Max (insert a (set xs))" for xs a
    using Max.set_eq_fold [of a xs] by simp
  then have "fold max ([1..<Suc m] @ [Suc m]) (0::nat) = Max (insert 0 (set ([1..<Suc m] @ [Suc m])))"
    by blast
  also have "\<dots> = Suc m"
    by (rule Max_eqI) auto
  finally show ?thesis .
qed

lemma assign_frame: "k \<notin> fst ` set sets \<Longrightarrow> assign ps sets r k = r k"
  unfolding assign_def by (induction sets arbitrary: r) auto

lemma assign_hit:
  "distinct (map fst sets) \<Longrightarrow> (c, n) \<in> set sets \<Longrightarrow> assign ps sets r c = param ps n"
proof (induction sets arbitrary: r)
  case Nil
  then show ?case by simp
next
  case (Cons x xs)
  show ?case
  proof (cases "x = (c, n)")
    case True
    then have "c \<notin> fst ` set xs" using Cons.prems(1) by auto
    then have "assign ps xs (r(c := param ps n)) c = param ps n"
      by (simp add: assign_frame)
    then show ?thesis using True by (simp add: assign_def)
  next
    case False
    then have "(c, n) \<in> set xs" using Cons.prems(2) by simp
    moreover have "distinct (map fst xs)" using Cons.prems(1) by simp
    ultimately have "assign ps xs (r(fst x := param ps (snd x))) c = param ps n"
      by (rule Cons.IH[rotated])
    then show ?thesis by (simp add: assign_def)
  qed
qed

lemma zip_upt_param:
  assumes "(f, n) \<in> set (zip fs [1..<Suc (length fs)])"
  shows "param (map g fs @ [i]) n = prepareValue (g f)"
proof -
  from assms obtain j where j: "j < length fs" "fs ! j = f" "[1..<Suc (length fs)] ! j = n"
    by (auto simp: in_set_zip)
  then have "n = Suc j" by (simp del: upt_Suc)
  then show ?thesis using j by (simp add: param_def nth_append)
qed

lemma distinct_fields: "distinct fields"
  by (simp add: fields_def)

lemma fields_columns: "f \<in> set fields \<Longrightarrow> f \<in> set columns"
  by (auto simp: fields_def columns_def)

lemma assign_update:
  "update_updated_at_column now
     (assign (map bookData (present_fields bookData) @ [i])
        (zip (present_fields bookData) [1..<Suc (length (present_fields bookData))]) r)
   = updated_row bookData now r"
proof
  fix k
  let ?fs = "present_fields bookData"
  let ?sets = "zip ?fs [1..<Suc (length ?fs)]"
  have fst_sets: "map fst ?sets = ?fs" by (simp del: upt_Suc)
  have dist: "distinct (map fst ?sets)"
    unfolding fst_sets by (simp add: present_fields_def distinct_fields)
  show "update_updated_at_column now (assign (map bookData ?fs @ [i]) ?sets r) k
        = updated_row bookData now r k"
  proof (cases "k = ''updated_at''")
    case True
    then show ?thesis by (simp add: update_updated_at_column_def updated_row_def)
  next
    case nu: False
    show ?thesis
    proof (cases "k \<in> set ?fs")
      case True
      then have "k \<in> set (map fst ?sets)" unfolding fst_sets .
      then obtain n where kn: "(k, n) \<in> set ?sets" by auto
      have "assign (map bookData ?fs @ [i]) ?sets r k = param (map bookData ?fs @ [i]) n"
        using dist kn by (rule assign_hit)
      also have "\<dots> = prepareValue (bookData k)" using kn by (rule zip_upt_param)
      finally show ?thesis using nu True
        by (simp add: update_updated_at_column_def updated_row_def present_fields_def)
    next
      case False
      then have "k \<notin> fst ` set ?sets" using fst_sets by (metis set_map)
      then have "assign (map bookData ?fs @ [i]) ?sets r k = r k" by (rule assign_frame)
      then show ?thesis using nu False
        by (auto simp add: update_updated_at_column_def updated_row_def present_fields_def)
    qed
  qed
qed

lemma query_update_eq:
  assumes "present_fields bookData \<noteq> []"
  shows "query (Update (zip (present_fields bookData) [1..<Suc (length (present_fields bookData))])
                  (EQ ''id'' (Suc (length (present_fields bookData)))))
           (map bookData (present_fields bookData) @ [i]) e d =
         (let d1 = d\<lparr>executed := executed d @
                     [(Update (zip (present_fields bookData) [1..<Suc (length (present_fields bookData))])
                         (EQ ''id'' (Suc (length (present_fields bookData)))),
                       map bookData (present_fields bookData) @ [i])]\<rparr>;
              rows' = map (\<lambda>r. if has_id i r then updated_row bookData (clock e) r else r) (rows d)
          in case violation rows' of
               Some err \<Rightarrow> (Inl err, d1)
             | None \<Rightarrow> (Inr (Rows (map (updated_row bookData (clock e)) (filter (has_id i) (rows d)))),
                         d1\<lparr>rows := rows'\<rparr>))"
proof -
  let ?fs = "present_fields bookData"
  let ?sets = "zip ?fs [1..<Suc (length ?fs)]"
  let ?ps = "map bookData ?fs @ [i]"
  have req: "required (Update ?sets (EQ ''id'' (Suc (length ?fs)))) = length ?ps"
    using fold_max_upt [of "length ?fs"] by (simp add: required_def del: upt_Suc)
  have cols: "list_all (\<lambda>c. c \<in> set columns) (named_columns (Update ?sets (EQ ''id'' (Suc (length ?fs)))))"
    by (auto simp add: list_all_iff present_fields_def fields_columns simp del: upt_Suc) (simp add: columns_def)
  have idp: "param ?ps (Suc (length ?fs)) = prepareValue i"
    by (simp add: param_def nth_append)
  have cond: "eval_cond ?ps r (EQ ''id'' (Suc (length ?fs))) = has_id i r" for r
    by (simp add: idp has_id_def)
  have ex: "exec (Update ?sets (EQ ''id'' (Suc (length ?fs)))) ?ps now d0 =
      (case violation (map (\<lambda>r. if has_id i r then updated_row bookData now r else r) (rows d0)) of
         Some err \<Rightarrow> (Inl err, d0)
       | None \<Rightarrow> (Inr (Rows (map (updated_row bookData now) (filter (has_id i) (rows d0)))),
                   d0\<lparr>rows := map (\<lambda>r. if has_id i r then updated_row bookData now r else r) (rows d0)\<rparr>))"
    for now d0
    by (simp only: exec.simps Let_def cond assign_update)
  have nz: "list_ex (\<lambda>n. n = 0) (placeholders (Update ?sets (EQ ''id'' (Suc (length ?fs))))) = False"
    by (auto simp add: list_ex_iff simp del: upt_Suc dest: set_zip_rightD)
  show ?thesis
    unfolding query_def Let_def
    by (simp only: req nz cols ex simp_thms if_False if_True) (simp del: upt_Suc split: option.splits)
qed

lemma update_eq:
  "update i bookData e d =
     (case filter (has_id i) (rows d) of
        [] \<Rightarrow> (Inr (JVal VNull), logged d [select_by_id i])
      | r # rs \<Rightarrow>
          if present_fields bookData = [] then (Inr (JRow r), logged d [select_by_id i])
          else
            (case violation (map (\<lambda>r. if has_id i r then updated_row bookData (clock e) r else r) (rows d)) of
               Some err \<Rightarrow> (Inl err, logged d [select_by_id i, update_stmt bookData i])
             | None \<Rightarrow>
                 (Inr (JRow (updated_row bookData (clock e) r)),
                  (logged d [select_by_id i, update_stmt bookData i])
                    \<lparr>rows := map (\<lambda>r. if has_id i r then updated_row bookData (clock e) r else r) (rows d)\<rparr>)))"
proof (cases "filter (has_id i) (rows d)")
  case Nil
  then show ?thesis
    by (simp add: update_def findById_eq await_def logged_def select_by_id_def)
next
  case (Cons r rs)
  have loop: "update_loop bookData fields [] [] (Suc 0) =
      (zip (present_fields bookData) [Suc 0..<Suc (length (present_fields bookData))],
       map bookData (present_fields bookData), Suc (length (present_fields bookData)))"
    by (simp add: update_loop_eq present_fields_def del: upt_Suc)
  show ?thesis
  proof (cases "present_fields bookData = []")
    case True
    then show ?thesis using Cons
      by (simp add: update_def findById_eq await_def loop logged_def select_by_id_def)
  next
    case False
    then show ?thesis using Cons
      by (simp add: update_def findById_eq await_def loop query_update_eq[unfolded One_nat_def] first_row_def
          logged_def select_by_id_def update_stmt_def Let_def
          del: upt_Suc split: option.splits)
  qed
qed

lemma present_fields_Nil:
  "present_fields bookData = [] \<Longrightarrow> f \<in> set fields \<Longrightarrow> bookData f = VUndefined"
  by (auto simp: present_fields_def filter_empty_conv)

lemma updated_row_frame:
  "k \<noteq> ''updated_at'' \<Longrightarrow> k \<notin> set fields \<or> bookData k = VUndefined
   \<Longrightarrow> updated_row bookData now r k = r k"
  by (auto simp: updated_row_def)


lemma update_rows:
  "rows (snd (update i bookData e d)) = rows d
   \<or> rows (snd (update i bookData e d))
       = map (\<lambda>r. if has_id i r then updated_row bookData (clock e) r else r) (rows d)"
  by (simp add: update_eq logged_def split: list.splits option.splits)

lemma update_executed:
  "executed (snd (update i bookData e d)) = executed d @ [select_by_id i]
   \<or> executed (snd (update i bookData e d)) = executed d @ [select_by_id i, update_stmt bookData i]"
  by (simp add: update_eq logged_def split: list.splits option.splits)

lemma update_frame_rows:
  "length (rows (snd (update i bookData e d))) = length (rows d)
   \<and> (\<forall>j k. j < length (rows d) \<and> k \<noteq> ''updated_at''
              \<and> (k \<notin> set fields \<or> bookData k = VUndefined)
          \<longrightarrow> (rows (snd (update i bookData e d)) ! j) k = (rows d ! j) k)"
  using update_rows [of i bookData e d]
  by (auto simp: updated_row_frame)


subsection \<open>The insert\<close>

lemma create_eq:
  "create bookData e d =
     (case violation (rows d @ [inserted_row bookData (next_id d) (clock e)]) of
        Some err \<Rightarrow>
          (Inl err, d\<lparr>executed := executed d @ [insert_stmt bookData], next_id := next_id d + 1\<rparr>)
      | None \<Rightarrow>
          (Inr (JRow (inserted_row bookData (next_id d) (clock e))),
           d\<lparr>executed := executed d @ [insert_stmt bookData], next_id := next_id d + 1,
             rows := rows d @ [inserted_row bookData (next_id d) (clock e)]\<rparr>))"
  by (simp add: create_def query_def required_def columns_def await_def Let_def first_row_def
      insert_stmt_def inserted_row_def fields_def split: option.splits)

lemma inserted_row_server:
  "k \<notin> set fields \<Longrightarrow> inserted_row bookData i now k = default_row i now k"
  unfolding inserted_row_def
  by (rule assign_frame) (auto simp: fields_def dest: set_zip_leftD)

lemma create_result:
  "executed (snd (create bookData e d)) = executed d @ [insert_stmt bookData]
   \<and> (\<forall>r. fst (create bookData e d) = Inr (JRow r) \<longrightarrow>
          r ''id'' = VInt (next_id d) \<and> r ''created_at'' = VDate (clock e)
          \<and> r ''updated_at'' = VDate (clock e)
          \<and> rows (snd (create bookData e d)) = rows d @ [r])
   \<and> (\<forall>err. fst (create bookData e d) = Inl err \<longrightarrow> rows (snd (create bookData e d)) = rows d)"
proof -
  have srv: "inserted_row bookData (next_id d) (clock e) ''id'' = VInt (next_id d)
      \<and> inserted_row bookData (next_id d) (clock e) ''created_at'' = VDate (clock e)
      \<and> inserted_row bookData (next_id d) (clock e) ''updated_at'' = VDate (clock e)"
    by (simp add: inserted_row_server fields_def default_row_def)
  show ?thesis
    using srv by (auto simp: create_eq split: option.splits)
qed

subsection \<open>Responses to errors\<close>

lemma conflict_response:
  "errorHandler e (conflict e IsbnExistsMsg (JObj [(''isbn'', JVal v)])) =
     \<lparr>status = 409,
      body = [(''success'', JVal (VBool False)), (''error'', JMsg IsbnExistsMsg),
              (''details'', JObj [(''isbn'', JVal v)]), (''timestamp'', JVal (VDate (clock e)))]\<rparr>"
  by (simp add: errorHandler_def conflict_def json_def)



subsection \<open>Patterns and the search\<close>

lemma like_literal:
  "wildcard_free t \<Longrightarrow> like_match (t @ q) s = (\<exists>rest. s = t @ rest \<and> like_match q rest)"
proof (induction t arbitrary: s)
  case Nil
  then show ?case by simp
next
  case (Cons c t)
  then have c: "c \<noteq> CHR ''%''" "c \<noteq> CHR ''_''" "c \<noteq> CHR 0x5C" and t: "wildcard_free t"
    by (auto simp: wildcard_free_def wildcards_def)
  show ?case
  proof (cases s)
    case Nil
    then show ?thesis using c by simp
  next
    case (Cons x xs)
    then show ?thesis using c Cons.IH [OF t, of xs] by auto
  qed
qed

lemma like_percent:
  "like_match (CHR ''%'' # q) s = (\<exists>pre rest. s = pre @ rest \<and> like_match q rest)"
proof (induction s)
  case Nil
  then show ?case by simp
next
  case (Cons x xs)
  have "like_match (CHR ''%'' # q) (x # xs)
        = (like_match q (x # xs) \<or> like_match (CHR ''%'' # q) xs)"
    by simp
  also have "\<dots> = (like_match q (x # xs) \<or> (\<exists>pre rest. xs = pre @ rest \<and> like_match q rest))"
    using Cons.IH by simp
  also have "\<dots> = (\<exists>pre rest. x # xs = pre @ rest \<and> like_match q rest)"
  proof
    assume "like_match q (x # xs) \<or> (\<exists>pre rest. xs = pre @ rest \<and> like_match q rest)"
    then show "\<exists>pre rest. x # xs = pre @ rest \<and> like_match q rest"
    proof
      assume "like_match q (x # xs)"
      then have "x # xs = [] @ (x # xs) \<and> like_match q (x # xs)" by simp
      then show ?thesis by blast
    next
      assume "\<exists>pre rest. xs = pre @ rest \<and> like_match q rest"
      then obtain pre rest where "xs = pre @ rest" "like_match q rest" by blast
      then have "x # xs = (x # pre) @ rest \<and> like_match q rest" by simp
      then show ?thesis by blast
    qed
  next
    assume "\<exists>pre rest. x # xs = pre @ rest \<and> like_match q rest"
    then obtain pre rest where pr: "x # xs = pre @ rest" "like_match q rest" by blast
    show "like_match q (x # xs) \<or> (\<exists>pre rest. xs = pre @ rest \<and> like_match q rest)"
    proof (cases pre)
      case Nil
      then show ?thesis using pr by simp
    next
      case (Cons y ys)
      then have "xs = ys @ rest" using pr(1) by simp
      then show ?thesis using pr(2) by blast
    qed
  qed
  finally show ?case .
qed

lemma like_substring:
  assumes "wildcard_free t"
  shows "like_match (CHR ''%'' # t @ [CHR ''%'']) s = sublist t s"
proof -
  have any: "like_match [CHR ''%''] x" for x
  proof -
    have "x = x @ [] \<and> like_match [] []" by simp
    then show ?thesis unfolding like_percent by blast
  qed
  have "like_match (CHR ''%'' # t @ [CHR ''%'']) s
        = (\<exists>pre rest. s = pre @ rest \<and> (\<exists>post. rest = t @ post \<and> like_match [CHR ''%''] post))"
    by (simp only: like_percent [of "t @ [CHR ''%'']"] like_literal [OF assms])
  also have "\<dots> = (\<exists>pre post. s = pre @ t @ post)"
    using any by auto
  finally show ?thesis by (simp add: sublist_def)
qed

lemma lower_char_wildcard: "lower_char c \<in> set wildcards \<longleftrightarrow> c \<in> set wildcards"
  by (simp add: lower_char_def wildcards_def)

lemma toLowerCase_wildcard_free: "wildcard_free t \<Longrightarrow> wildcard_free (toLowerCase t)"
  by (simp add: wildcard_free_def toLowerCase_def list_all_iff lower_char_wildcard)

lemma ilike_contains:
  assumes "wildcard_free t"
  shows "ilike s (''%'' @ t @ ''%'') = contains_ci s t"
proof -
  have "toLowerCase (''%'' @ t @ ''%'') = CHR ''%'' # toLowerCase t @ [CHR ''%'']"
    by (simp add: toLowerCase_def lower_char_def)
  then show ?thesis
    using like_substring [OF toLowerCase_wildcard_free [OF assms]]
    by (simp add: ilike_def contains_ci_def)
qed

lemma search_eq:
  "search t e d =
     (Inr (sort_key (\<lambda>r. sort_rank (r ''title''))
             (filter (\<lambda>r. eval_where [VStr (''%'' @ t @ ''%'')] r
                        (AnyOf [ILIKE ''title'' 1, ILIKE ''author'' 1, ILIKE ''description'' 1]))
                (rows d))),
      d\<lparr>executed := executed d @ [search_stmt t]\<rparr>)"
  by (simp add: search_def query_def required_def columns_def order_by_def limit_offset_def
      await_def search_stmt_def)

lemma eval_search_where:
  assumes "wildcard_free t"
  shows "eval_where [VStr (''%'' @ t @ ''%'')] r
           (AnyOf [ILIKE ''title'' 1, ILIKE ''author'' 1, ILIKE ''description'' 1])
         = matches_term t r"
  using ilike_contains [OF assms]
  by (simp add: matches_term_def field_contains_def param_def prepareValue_def split: val.splits)

subsection \<open>Integers in the query string\<close>

lemma lower_char_cases:
  "lower_char c = c \<or> lower_char c \<in> set ''abcdefghijklmnopqrstuvwxyz''"
proof (cases "map_of (zip ''ABCDEFGHIJKLMNOPQRSTUVWXYZ'' ''abcdefghijklmnopqrstuvwxyz'') c")
  case None
  then have "lower_char c = c" by (simp only: lower_char_def option.case)
  then show ?thesis by blast
next
  case (Some l)
  then have "(c, l) \<in> set (zip ''ABCDEFGHIJKLMNOPQRSTUVWXYZ'' ''abcdefghijklmnopqrstuvwxyz'')"
    by (rule map_of_SomeD)
  then have "l \<in> set ''abcdefghijklmnopqrstuvwxyz''"
    by (rule set_zip_rightD)
  moreover have "lower_char c = l" using Some by (simp only: lower_char_def option.case)
  ultimately show ?thesis by blast
qed

lemma lower_char_digit:
  assumes "lower_char c \<in> set ''0123456789''"
  shows "lower_char c = c"
proof -
  have "x \<in> set ''abcdefghijklmnopqrstuvwxyz'' \<Longrightarrow> x \<notin> set ''0123456789''" for x :: char
    by auto
  then show ?thesis using lower_char_cases [of c] assms by blast
qed

lemma index_of_take: "index_of x xs = Some v \<Longrightarrow> v < n \<Longrightarrow> x \<in> set (take n xs)"
proof (induction xs arbitrary: v n)
  case Nil
  then show ?case by simp
next
  case (Cons y ys)
  show ?case
  proof (cases "x = y")
    case True
    then show ?thesis using Cons.prems by (cases n) auto
  next
    case False
    then obtain w where w: "index_of x ys = Some w" "v = Suc w"
      using Cons.prems(1) by auto
    then obtain m where m: "n = Suc m" "w < m"
      using Cons.prems(2) by (cases n) auto
    then show ?thesis using Cons.IH [OF w(1) m(2)] by simp
  qed
qed

lemma is_digit_10_D: "is_digit 10 c \<Longrightarrow> c \<in> set ''0123456789''"
proof -
  assume "is_digit 10 c"
  then obtain v where "index_of (lower_char c) ''0123456789abcdef'' = Some v" "v < 10"
    by (auto simp: is_digit_def digit_of_def split: option.splits)
  then have "lower_char c \<in> set (take 10 ''0123456789abcdef'')"
    by (rule index_of_take)
  then have "lower_char c \<in> set ''0123456789''" by simp
  then show ?thesis using lower_char_digit [of c] by simp
qed

lemma not_hex_prefix:
  assumes "list_all (is_digit 10) ds"
  shows "take 2 ds \<noteq> ''0x'' \<and> take 2 ds \<noteq> ''0X''"
proof (cases ds)
  case Nil
  then show ?thesis by simp
next
  case (Cons a as)
  show ?thesis
  proof (cases as)
    case Nil
    then show ?thesis using Cons by simp
  next
    case (Cons b bs)
    then have "is_digit 10 b" using assms \<open>ds = a # as\<close> by simp
    then have "b \<in> set ''0123456789''" by (rule is_digit_10_D)
    then have "b \<noteq> CHR ''x'' \<and> b \<noteq> CHR ''X''" by auto
    then show ?thesis using Cons \<open>ds = a # as\<close> by simp
  qed
qed

lemma digit_not_space: "is_digit 10 c \<Longrightarrow> \<not> is_space c"
proof -
  assume "is_digit 10 c"
  then have "c \<in> set ''0123456789''" by (rule is_digit_10_D)
  then show ?thesis by (auto simp: is_space_def)
qed

lemma digit_not_sign: "is_digit 10 c \<Longrightarrow> c \<noteq> CHR ''-'' \<and> c \<noteq> CHR ''+''"
proof -
  assume "is_digit 10 c"
  then have "c \<in> set ''0123456789''" by (rule is_digit_10_D)
  then show ?thesis by auto
qed

lemma parseInt_digits:
  assumes "ds \<noteq> []" and "list_all (is_digit 10) ds"
  shows "parseInt ds = Some (digits_value 10 ds)"
    and "parseInt (CHR ''-'' # ds) = Some (- digits_value 10 ds)"
    and "parseInt (CHR ''+'' # ds) = Some (digits_value 10 ds)"
proof -
  obtain c cs where ds: "ds = c # cs" using assms(1) by (cases ds) auto
  then have c: "is_digit 10 c" using assms(2) by simp
  have tw: "takeWhile (is_digit 10) ds = ds"
    using assms(2) by (simp add: list_all_iff)
  note hex = not_hex_prefix [OF assms(2)]
  have sp: "dropWhile is_space ds = ds"
    using digit_not_space [OF c] ds by simp
  have sg: "take 1 ds \<noteq> ''-''" "take 1 ds \<noteq> ''+''"
    using digit_not_sign [OF c] ds by simp_all
  show "parseInt ds = Some (digits_value 10 ds)"
    using assms(1) sp sg hex by (simp add: parseInt_def Let_def tw)
  show "parseInt (CHR ''-'' # ds) = Some (- digits_value 10 ds)"
    using assms(1) hex by (simp add: parseInt_def Let_def is_space_def tw)
  show "parseInt (CHR ''+'' # ds) = Some (digits_value 10 ds)"
    using assms(1) hex by (simp add: parseInt_def Let_def is_space_def tw)
qed

lemma parseInt_int_of_string:
  assumes "int_of_string str = Some n"
  shows "parseInt str = Some n"
proof (cases "take 1 str = ''-'' \<or> take 1 str = ''+''")
  case True
  then obtain c ds where str: "str = c # ds" "c = CHR ''-'' \<or> c = CHR ''+''"
    by (cases str) auto
  from assms str have ds: "ds \<noteq> []" "list_all (is_digit 10) ds"
    and n: "n = (if c = CHR ''-'' then - 1 else 1) * digits_value 10 ds"
    by (auto simp: int_of_string_def split: if_splits)
  show ?thesis
    using str(2) parseInt_digits(2,3) [OF ds] n str(1) by auto
next
  case False
  with assms have ds: "str \<noteq> []" "list_all (is_digit 10) str" and n: "n = digits_value 10 str"
    by (auto simp: int_of_string_def Let_def split: if_splits)
  show ?thesis
    using parseInt_digits(1) [OF ds] n by simp
qed

lemma isInt_parseInt:
  assumes "isInt (Some lo) mx str"
  shows "\<exists>n. int_of_string str = Some n \<and> parseInt str = Some n \<and> lo \<le> n
             \<and> (case mx of None \<Rightarrow> True | Some hi \<Rightarrow> n \<le> hi)"
  using assms parseInt_int_of_string [of str]
  by (auto simp: isInt_def split: option.splits)

subsection \<open>The list request and its two statements\<close>

lemma required_upt:
  "fold max ([1..<Suc m] @ [Suc m, Suc (Suc m)]) (0::nat) = Suc (Suc m)"
  "fold max [1..<Suc m] (0::nat) = m"
proof -
  have "Max (insert 0 (set ([1..<Suc m] @ [Suc m, Suc (Suc m)]))) = Suc (Suc m)"
    by (rule Max_eqI) auto
  then show "fold max ([1..<Suc m] @ [Suc m, Suc (Suc m)]) (0::nat) = Suc (Suc m)"
    by (simp only: fold_max_Max)
  have "Max (insert 0 (set [1..<Suc m])) = m"
    by (rule Max_eqI) auto
  then show "fold max [1..<Suc m] (0::nat) = m"
    by (simp only: fold_max_Max)
qed

lemma param_append: "1 \<le> n \<Longrightarrow> n \<le> length ps \<Longrightarrow> param (ps @ xs) n = param ps n"
proof -
  assume "1 \<le> n" "n \<le> length ps"
  then have "n - 1 < length ps" by arith
  then show ?thesis by (simp add: param_def nth_append)
qed

lemma eval_cond_append:
  "1 \<le> cond_placeholder c \<Longrightarrow> cond_placeholder c \<le> length ps
   \<Longrightarrow> eval_cond (ps @ xs) r c = eval_cond ps r c"
  by (cases c) (simp_all add: param_append split: val.splits)

lemma eval_where_append:
  assumes "map cond_placeholder cs = [1..<Suc (length ps)]"
  shows "eval_where (ps @ xs) r (AllOf cs) = eval_where ps r (AllOf cs)"
proof -
  have "1 \<le> cond_placeholder c \<and> cond_placeholder c \<le> length ps" if "c \<in> set cs" for c
  proof -
    from that have "cond_placeholder c \<in> set (map cond_placeholder cs)" by simp
    then show ?thesis unfolding assms by auto
  qed
  then show ?thesis
    by (simp add: list_all_iff eval_cond_append)
qed

lemma list_where_shape:
  "list_where opts = (list_conds opts, list_params opts, Suc (length (list_params opts)))
   \<and> map cond_placeholder (list_conds opts) = [1..<Suc (length (list_params opts))]
   \<and> list_all (\<lambda>c. c \<in> set columns) (map cond_column (list_conds opts))"
  by (simp add: list_where_def list_conds_def list_params_def where_genre_def where_author_def
      where_inStock_def columns_def split: option.splits)

lemma query_select_page:
  assumes ph: "map cond_placeholder cs = [1..<Suc (length ps)]"
    and cols: "list_all (\<lambda>c. c \<in> set columns) (map cond_column cs)"
    and c: "c \<in> set columns" and dir: "dir = ''ASC'' \<or> dir = ''DESC''"
    and l: "0 \<le> l" and off: "0 \<le> off"
  shows "query (Select (AllOf cs) (Some (c, dir)) (Some (Suc (length ps), Suc (Suc (length ps)))))
           (ps @ [VInt l, VInt off]) e d =
         (Inr (Rows (take (nat l) (drop (nat off)
                 (ordered c dir (filter (\<lambda>r. eval_where ps r (AllOf cs)) (rows d)))))),
          d\<lparr>executed := executed d @
               [(Select (AllOf cs) (Some (c, dir)) (Some (Suc (length ps), Suc (Suc (length ps)))),
                 ps @ [VInt l, VInt off])]\<rparr>)"
proof -
  let ?sql = "Select (AllOf cs) (Some (c, dir)) (Some (Suc (length ps), Suc (Suc (length ps))))"
  let ?params = "ps @ [VInt l, VInt off]"
  have req: "required ?sql = length ?params"
    using required_upt(1) [of "length ps"] by (simp add: required_def ph del: upt_Suc)
  have nc: "list_all (\<lambda>c. c \<in> set columns) (named_columns ?sql)"
    using cols c by simp
  have w: "(\<lambda>r. eval_where ?params r (AllOf cs)) = (\<lambda>r. eval_where ps r (AllOf cs))"
    using eval_where_append [OF ph] by blast
  have ord: "order_by (Some (c, dir)) rs = Inr (ordered c dir rs)" for rs
    using dir by (auto simp: order_by_def ordered_def)
  have p1: "param ?params (Suc (length ps)) = VInt l"
    by (simp add: param_def prepareValue_def nth_append)
  have p2: "param ?params (Suc (Suc (length ps))) = VInt off"
    by (simp add: param_def prepareValue_def nth_append)
  have lo: "limit_offset ?params (Some (Suc (length ps), Suc (Suc (length ps)))) rs
            = Inr (take (nat l) (drop (nat off) rs))" for rs
    using l off by (simp add: limit_offset_def p1 p2)
  have ex: "exec ?sql ?params now d0 =
      (Inr (Rows (take (nat l) (drop (nat off)
              (ordered c dir (filter (\<lambda>r. eval_where ps r (AllOf cs)) (rows d0)))))), d0)"
    for now d0
    by (simp only: exec.simps w ord lo sum.case)
  have nz: "list_ex (\<lambda>n. n = 0) (placeholders ?sql) = False"
    by (simp add: list_ex_iff ph del: upt_Suc)
  show ?thesis
    unfolding query_def Let_def
    by (simp only: req nz nc ex simp_thms if_False if_True) simp
qed

lemma query_count:
  assumes ph: "map cond_placeholder cs = [1..<Suc (length ps)]"
    and cols: "list_all (\<lambda>c. c \<in> set columns) (map cond_column cs)"
  shows "query (SelectCount (AllOf cs)) ps e d =
         (Inr (Total (length (filter (\<lambda>r. eval_where ps r (AllOf cs)) (rows d)))),
          d\<lparr>executed := executed d @ [(SelectCount (AllOf cs), ps)]\<rparr>)"
proof -
  have req: "required (SelectCount (AllOf cs)) = length ps"
    using required_upt(2) [of "length ps"] by (simp add: required_def ph del: upt_Suc)
  have nc: "list_all (\<lambda>c. c \<in> set columns) (named_columns (SelectCount (AllOf cs)))"
    using cols by simp
  have nz: "list_ex (\<lambda>n. n = 0) (placeholders (SelectCount (AllOf cs))) = False"
    by (simp add: list_ex_iff ph del: upt_Suc)
  show ?thesis
    unfolding query_def Let_def
    by (simp only: req nz nc exec.simps simp_thms if_False if_True) simp
qed

lemma safeSortBy_column: "safeSortBy opts \<in> set columns"
  by (auto simp: safeSortBy_def allowedSortFields_def columns_def)

lemma safeSortOrder_dir: "safeSortOrder opts = ''ASC'' \<or> safeSortOrder opts = ''DESC''"
  by (simp add: safeSortOrder_def)

lemma findAll_eq:
  assumes "0 \<le> opt_limit opts" and "0 \<le> opt_offset opts"
  shows "findAll opts e d =
     (Inr \<lparr>data = page_rows opts d,
           pagination = \<lparr>currentPage = opt_page opts,
                          totalPages = ceil_div (int (length (list_matching opts d))) (opt_limit opts),
                          totalItems = int (length (list_matching opts d)),
                          itemsPerPage = opt_limit opts\<rparr>\<rparr>,
      d\<lparr>executed := executed d @ [select_page_stmt opts, count_stmt opts]\<rparr>)"
proof -
  note sh = list_where_shape [of opts]
  have lw: "where_inStock opts (where_author opts (where_genre opts))
            = (list_conds opts, list_params opts, Suc (length (list_params opts)))"
    using sh by (simp add: list_where_def)
  have q1: "query (fst (select_page_stmt opts)) (snd (select_page_stmt opts)) e d0 =
      (Inr (Rows (take (nat (opt_limit opts)) (drop (nat (opt_offset opts))
              (ordered (safeSortBy opts) (safeSortOrder opts)
                 (filter (\<lambda>r. eval_where (list_params opts) r (AllOf (list_conds opts))) (rows d0)))))),
       d0\<lparr>executed := executed d0 @ [select_page_stmt opts]\<rparr>)" for d0
    unfolding select_page_stmt_def fst_conv snd_conv
    using sh safeSortBy_column safeSortOrder_dir assms
    by (intro query_select_page) simp_all
  have q2: "query (fst (count_stmt opts)) (snd (count_stmt opts)) e d0 =
      (Inr (Total (length (filter (\<lambda>r. eval_where (list_params opts) r (AllOf (list_conds opts)))
                             (rows d0)))),
       d0\<lparr>executed := executed d0 @ [count_stmt opts]\<rparr>)" for d0
    unfolding count_stmt_def fst_conv snd_conv
    using sh by (intro query_count) simp_all
  have tk: "take (length (list_params opts)) (list_params opts @ [a, b]) = list_params opts" for a b
    by simp
  show ?thesis
    unfolding findAll_def Let_def lw prod.case
    using q1 q2
    by (simp add: select_page_stmt_def count_stmt_def await_def page_rows_def list_matching_def
        opt_page_def opt_limit_def opt_offset_def safeSortBy_def safeSortOrder_def)
qed


lemma optional_rule_Nil:
  "optional_rule field v check msg = [] \<longleftrightarrow> (case v of None \<Rightarrow> True | Some str \<Rightarrow> check str)"
  by (simp add: optional_rule_def split: option.splits)

lemma validated_page:
  assumes "listBooksValidation q = []"
  shows "1 \<le> opt_page (list_options q)
       \<and> (case q_page q of None \<Rightarrow> opt_page (list_options q) = 1
           | Some s \<Rightarrow> int_of_string s = Some (opt_page (list_options q)))"
proof (cases "q_page q")
  case None
  then show ?thesis by (simp add: opt_page_def list_options_def or_int_def)
next
  case (Some s)
  then have "isInt (Some 1) None s"
    using assms by (simp add: listBooksValidation_def optional_rule_Nil)
  then obtain n where "int_of_string s = Some n" "parseInt s = Some n" "1 \<le> n"
    using isInt_parseInt by blast
  then show ?thesis using Some by (simp add: opt_page_def list_options_def or_int_def)
qed

lemma validated_limit:
  assumes "listBooksValidation q = []"
  shows "1 \<le> opt_limit (list_options q) \<and> opt_limit (list_options q) \<le> 100
       \<and> (case q_limit q of None \<Rightarrow> opt_limit (list_options q) = 10
           | Some s \<Rightarrow> int_of_string s = Some (opt_limit (list_options q)))"
proof (cases "q_limit q")
  case None
  then show ?thesis by (simp add: opt_limit_def list_options_def or_int_def)
next
  case (Some s)
  then have "isInt (Some 1) (Some 100) s"
    using assms by (simp add: listBooksValidation_def optional_rule_Nil)
  then obtain n where "int_of_string s = Some n" "parseInt s = Some n" "1 \<le> n" "n \<le> 100"
    using isInt_parseInt [of 1 "Some 100" s] by auto
  then show ?thesis using Some by (simp add: opt_limit_def list_options_def or_int_def)
qed


lemma inStock_validated:
  assumes "listBooksValidation q = []" and "q_inStock q = Some s"
  shows "s \<in> set [''true'', ''false'', ''1'', ''0'']"
    and "inStock (list_options q) = Some (s = ''true'')"
proof -
  show "s \<in> set [''true'', ''false'', ''1'', ''0'']"
    using assms by (simp add: listBooksValidation_def optional_rule_Nil isBoolean_def)
  show "inStock (list_options q) = Some (s = ''true'')"
    using assms(2) by (simp add: list_options_def)
qed






lemma list_route_valid:
  assumes "listBooksValidation q = []"
  shows "list_route e q d =
     (\<lparr>status = 200,
       body = [(''success'', JVal (VBool True)),
               (''data'', JRows (page_rows (list_options q) d)),
               (''pagination'',
                JObj [(''currentPage'', JVal (VInt (opt_page (list_options q)))),
                      (''totalPages'',
                       JVal (VInt \<lceil>(of_int (int (length (list_matching (list_options q) d))) :: rat)
                                  / of_int (opt_limit (list_options q))\<rceil>)),
                      (''totalItems'', JVal (VInt (int (length (list_matching (list_options q) d))))),
                      (''itemsPerPage'', JVal (VInt (opt_limit (list_options q))))])]\<rparr>,
      d\<lparr>executed := executed d @ [select_page_stmt (list_options q), count_stmt (list_options q)]\<rparr>)"
proof -
  note p = validated_page [OF assms]
  note l = validated_limit [OF assms]
  have off: "0 \<le> opt_offset (list_options q)"
    using p l by (simp add: opt_offset_def)
  have lim: "0 \<le> opt_limit (list_options q)" "opt_limit (list_options q) \<noteq> 0"
    using l by auto
  show ?thesis
    using lim(2)
    by (simp add: list_route_def validate_def assms list_handler_def list_body_def
        findAll_eq [OF lim(1) off] await_def catch_next_def json_def pagination_json_def
        ceil_div_def)
qed

section \<open>The claims\<close>

subsection \<open>C1\<close>

text \<open>
  C1. The table's constraints hold in the store. A create or update request supplies an
  isbn (a non-empty string) that a row \<open>holder\<close> has. The POST handler answers 409
  after the lookup by isbn and nothing else; the PUT and the PATCH handler, for an
  existing target other than the holder, answer 409 after the lookup by id and the lookup
  by isbn. No INSERT and no UPDATE is submitted: the store afterwards is the store before
  with a longer log, so every row, the holder's too, is as it was.
\<close>

theorem isbn_conflict_rejected:
  assumes "violation (rows d) = None"
    and "holder \<in> set (rows d)" and "holder ''isbn'' = VStr s" and "s \<noteq> []"
    and "reqbody ''isbn'' = VStr s"
  shows "post_handler e reqbody d =
           (\<lparr>status = 409,
             body = [(''success'', JVal (VBool False)), (''error'', JMsg IsbnExistsMsg),
                     (''details'', JObj [(''isbn'', JVal (VStr s))]),
                     (''timestamp'', JVal (VDate (clock e)))]\<rparr>,
            d\<lparr>executed := executed d @ [select_by_isbn (VStr s)]\<rparr>)
       \<and> (find (\<lambda>r. r ''id'' = VInt n) (rows d) = Some target \<and> holder ''id'' \<noteq> VInt n \<longrightarrow>
            put_handler e (VInt n) reqbody d =
              (\<lparr>status = 409,
                body = [(''success'', JVal (VBool False)), (''error'', JMsg IsbnExistsMsg),
                        (''details'', JObj [(''isbn'', JVal (VStr s))]),
                        (''timestamp'', JVal (VDate (clock e)))]\<rparr>,
               d\<lparr>executed := executed d @ [select_by_id (VInt n), select_by_isbn (VStr s)]\<rparr>)
            \<and> patch_handler e (VInt n) reqbody d =
              (\<lparr>status = 409,
                body = [(''success'', JVal (VBool False)), (''error'', JMsg IsbnExistsMsg),
                        (''details'', JObj [(''isbn'', JVal (VStr s))]),
                        (''timestamp'', JVal (VDate (clock e)))]\<rparr>,
               d\<lparr>executed := executed d @ [select_by_id (VInt n), select_by_isbn (VStr s)]\<rparr>))"
proof -
  have "has_isbn (VStr s) holder"
    using assms(3) by (simp add: has_isbn_def prepareValue_def)
  then have "filter (has_isbn (VStr s)) (rows d) \<noteq> []"
    using assms(2) by (auto simp: filter_empty_conv)
  then obtain h hs where held: "filter (has_isbn (VStr s)) (rows d) = h # hs"
    by (cases "filter (has_isbn (VStr s)) (rows d)") auto
  have post: "post_handler e reqbody d =
           (\<lparr>status = 409,
             body = [(''success'', JVal (VBool False)), (''error'', JMsg IsbnExistsMsg),
                     (''details'', JObj [(''isbn'', JVal (VStr s))]),
                     (''timestamp'', JVal (VDate (clock e)))]\<rparr>,
            d\<lparr>executed := executed d @ [select_by_isbn (VStr s)]\<rparr>)"
    using assms(4,5) held
    by (simp add: post_handler_def post_body_def post_isbn_check_def findByIsbn_eq await_def
        catch_next_def conflict_response)
  have put: "put_handler e (VInt n) reqbody d =
              (\<lparr>status = 409,
                body = [(''success'', JVal (VBool False)), (''error'', JMsg IsbnExistsMsg),
                        (''details'', JObj [(''isbn'', JVal (VStr s))]),
                        (''timestamp'', JVal (VDate (clock e)))]\<rparr>,
               d\<lparr>executed := executed d @ [select_by_id (VInt n), select_by_isbn (VStr s)]\<rparr>)"
    if found: "find (\<lambda>r. r ''id'' = VInt n) (rows d) = Some target"
      and other: "holder ''id'' \<noteq> VInt n"
  proof -
    from found obtain rs where sel: "filter (has_id (VInt n)) (rows d) = target # rs"
      using find_filter [of "\<lambda>r. r ''id'' = VInt n"] by (auto simp: has_id_VInt)
    from found have t: "target \<in> set (rows d)" "target ''id'' = VInt n"
      using find_Some_set [of "\<lambda>r. r ''id'' = VInt n"] by auto
    have "target ''isbn'' \<noteq> VStr s"
    proof
      assume "target ''isbn'' = VStr s"
      then have "target = holder"
        using first_dup_None_inj [OF violation_None_isbn [OF assms(1)] t(1) assms(2)] assms(3)
        by simp
      then show False using t(2) other by simp
    qed
    then show ?thesis
      using sel assms(4,5) held
      by (simp add: put_handler_def put_body_def findById_eq findByIsbn_eq await_def
          catch_next_def conflict_response select_by_id_def)
  qed
  have patch: "patch_handler e (VInt n) reqbody d = put_handler e (VInt n) reqbody d"
    by (simp add: put_handler_def patch_handler_def put_body_def patch_body_def)
  show ?thesis
    using post put patch by simp
qed

theorem isbn_conflict_rejected_witness:
  "violation (rows example_db) = None
   \<and> example_book1 \<in> set (rows example_db)
   \<and> example_book1 ''isbn'' = VStr ''1234567890''
   \<and> ''1234567890'' \<noteq> []
   \<and> example_new_book ''isbn'' = VStr ''1234567890''
   \<and> find (\<lambda>r. r ''id'' = VInt 2) (rows example_db) = Some example_book2
   \<and> example_book1 ''id'' \<noteq> VInt 2
   \<and> status (fst (post_handler example_env example_new_book example_db)) = 409
   \<and> rows (snd (post_handler example_env example_new_book example_db)) = rows example_db
   \<and> status (fst (put_handler example_env (VInt 2) example_new_book example_db)) = 409
   \<and> rows (snd (put_handler example_env (VInt 2) example_new_book example_db)) = rows example_db
   \<and> status (fst (patch_handler example_env (VInt 2) example_new_book example_db)) = 409
   \<and> executed (snd (patch_handler example_env (VInt 2) example_new_book example_db))
       = [select_by_id (VInt 2), select_by_isbn (VStr ''1234567890'')]"
proof -
  have h1: "violation (rows example_db) = None"
    by (simp add: violation_def example_db_def example_book1_def example_book2_def default_row_def)
  have h2: "example_book1 \<in> set (rows example_db)"
    by (simp add: example_db_def)
  have h3: "example_book1 ''isbn'' = VStr ''1234567890''"
    by (simp add: example_book1_def)
  have h4: "''1234567890'' \<noteq> []"
    by simp
  have h5: "example_new_book ''isbn'' = VStr ''1234567890''"
    by (simp add: example_new_book_def)
  have h6: "find (\<lambda>r. r ''id'' = VInt 2) (rows example_db) = Some example_book2"
    by (simp add: example_db_def example_book1_def example_book2_def default_row_def)
  have h7: "example_book1 ''id'' \<noteq> VInt 2"
    by (simp add: example_book1_def default_row_def)
  have ex: "executed example_db = []"
    by (simp add: example_db_def)
  show ?thesis
    using h1 h2 h3 h4 h5 h6 h7
      isbn_conflict_rejected [where d = example_db and holder = example_book1
        and s = "''1234567890''" and reqbody = example_new_book and e = example_env
        and n = 2 and target = example_book2]
    by (simp add: ex)
qed

subsection \<open>C2\<close>



subsection \<open>C3\<close>




subsection \<open>C4\<close>

text \<open>
  C4, as the code has it. For a search term without the pattern characters \<open>%\<close>,
  \<open>_\<close> and backslash, \<open>search\<close> returns exactly the rows whose title, author or
  description contains the term as a case-insensitive substring, sorted by title
  ascending, and the handler answers 200 with their number as \<open>count\<close> and the rows as
  \<open>data\<close>; when no row matches, \<open>count\<close> is 0 and \<open>data\<close> is empty.
\<close>

theorem search_returns_substring_matches:
  assumes "wildcard_free t"
  shows "\<exists>books.
           books = sort_key (\<lambda>r. sort_rank (r ''title'')) (filter (matches_term t) (rows d))
         \<and> search t e d = (Inr books, d\<lparr>executed := executed d @ [search_stmt t]\<rparr>)
         \<and> set books = {r \<in> set (rows d). matches_term t r}
         \<and> length books = length (filter (matches_term t) (rows d))
         \<and> sorted (map (\<lambda>r. sort_rank (r ''title'')) books)
         \<and> search_handler e t d =
             (\<lparr>status = 200,
               body = [(''success'', JVal (VBool True)),
                       (''count'', JVal (VInt (int (length books)))),
                       (''data'', JRows books)]\<rparr>,
              d\<lparr>executed := executed d @ [search_stmt t]\<rparr>)
         \<and> (filter (matches_term t) (rows d) = [] \<longrightarrow>
              search_handler e t d =
                (\<lparr>status = 200,
                  body = [(''success'', JVal (VBool True)), (''count'', JVal (VInt 0)),
                          (''data'', JRows [])]\<rparr>,
                 d\<lparr>executed := executed d @ [search_stmt t]\<rparr>))"
proof -
  let ?books = "sort_key (\<lambda>r. sort_rank (r ''title'')) (filter (matches_term t) (rows d))"
  have w: "(\<lambda>r. eval_where [VStr (''%'' @ t @ ''%'')] r
                (AnyOf [ILIKE ''title'' 1, ILIKE ''author'' 1, ILIKE ''description'' 1]))
           = matches_term t"
    using eval_search_where [OF assms] by blast
  have s: "search t e d = (Inr ?books, d\<lparr>executed := executed d @ [search_stmt t]\<rparr>)"
    unfolding search_eq w ..
  have h: "search_handler e t d =
             (\<lparr>status = 200,
               body = [(''success'', JVal (VBool True)),
                       (''count'', JVal (VInt (int (length ?books)))),
                       (''data'', JRows ?books)]\<rparr>,
              d\<lparr>executed := executed d @ [search_stmt t]\<rparr>)"
    by (simp add: search_handler_def search_body_def s await_def catch_next_def json_def)
  have st: "set ?books = {r \<in> set (rows d). matches_term t r}"
    by auto
  have srt: "sorted (map (\<lambda>r. sort_rank (r ''title'')) ?books)"
    by simp
  have len: "length ?books = length (filter (matches_term t) (rows d))"
    by simp
  have none: "filter (matches_term t) (rows d) = [] \<longrightarrow>
              search_handler e t d =
                (\<lparr>status = 200,
                  body = [(''success'', JVal (VBool True)), (''count'', JVal (VInt 0)),
                          (''data'', JRows [])]\<rparr>,
                 d\<lparr>executed := executed d @ [search_stmt t]\<rparr>)"
    using h by simp
  show ?thesis
    using s h st srt len none by blast
qed

theorem search_returns_substring_matches_witness:
  "wildcard_free ''AB''
   \<and> matches_term ''AB'' example_book1
   \<and> fst (search ''AB'' example_env example_db) = Inr [example_book1]
   \<and> map_of (body (fst (search_handler example_env ''AB'' example_db))) ''count''
       = Some (JVal (VInt 1))
   \<and> wildcard_free ''qq''
   \<and> filter (matches_term ''qq'') (rows example_db) = []
   \<and> fst (search_handler example_env ''qq'' example_db)
       = \<lparr>status = 200,
          body = [(''success'', JVal (VBool True)), (''count'', JVal (VInt 0)),
                  (''data'', JRows [])]\<rparr>"
proof -
  have h1: "wildcard_free ''AB''" and h2: "wildcard_free ''qq''"
    by (simp_all add: wildcard_free_def wildcards_def)
  have low: "toLowerCase ''AB'' = ''ab''" "toLowerCase ''abc'' = ''abc''"
    "toLowerCase ''Orwell'' = ''orwell''" "toLowerCase ''Zed'' = ''zed''"
    "toLowerCase ''Tolstoy'' = ''tolstoy''" "toLowerCase ''qq'' = ''qq''"
    by (simp_all add: toLowerCase_def lower_char_def)
  have m1: "matches_term ''AB'' example_book1"
    by (simp add: matches_term_def field_contains_def contains_ci_def low example_book1_def
        sublist_Cons_right)
  have m2: "\<not> matches_term ''AB'' example_book2"
    by (simp add: matches_term_def field_contains_def contains_ci_def low example_book2_def
        default_row_def columns_def sublist_Cons_right)
  have m3: "filter (matches_term ''qq'') (rows example_db) = []"
    by (simp add: matches_term_def field_contains_def contains_ci_def low example_book1_def
        example_book2_def default_row_def columns_def sublist_Cons_right example_db_def)
  have f: "filter (matches_term ''AB'') (rows example_db) = [example_book1]"
    using m1 m2 by (simp add: example_db_def)
  show ?thesis
    using h1 h2 m1 m3 f
      search_returns_substring_matches [OF h1, of example_db example_env]
      search_returns_substring_matches [OF h2, of example_db example_env]
    by simp
qed

text \<open>
  C4, as the claim states it, fails for a term with a pattern character: \<open>a_c\<close> is not
  a substring of the title, the author or the description of book 1, and the
  search for it returns book 1, whose title is \<open>abc\<close>.
\<close>

theorem search_underscore_is_a_wildcard:
  "\<not> matches_term ''a_c'' example_book1
   \<and> fst (search ''a_c'' example_env example_db) = Inr [example_book1]"
proof -
  have low: "toLowerCase ''a_c'' = ''a_c''" "toLowerCase ''abc'' = ''abc''"
    "toLowerCase ''Orwell'' = ''orwell''" "toLowerCase ''Zed'' = ''zed''"
    "toLowerCase ''Tolstoy'' = ''tolstoy''" "toLowerCase ''%a_c%'' = ''%a_c%''"
    by (simp_all add: toLowerCase_def lower_char_def)
  have m: "\<not> matches_term ''a_c'' example_book1"
    by (simp add: matches_term_def field_contains_def contains_ci_def low example_book1_def
        default_row_def columns_def sublist_Cons_right)
  have s: "fst (search ''a_c'' example_env example_db) = Inr [example_book1]"
    by (simp add: search_eq example_db_def example_book1_def example_book2_def default_row_def
        columns_def param_def prepareValue_def ilike_def low)
  show ?thesis using m s by simp
qed

subsection \<open>C5\<close>

text \<open>
  C5. For every existing id, an update or patch request whose body has none of the nine
  recognised fields is answered 200 with the existing row as \<open>data\<close>: the handler looks
  the row up, \<open>update\<close> looks it up again, finds no field to set, submits no UPDATE and
  returns the row it loaded. The rows of the store and the sequence are as before; the
  log has grown by the two lookups only.
\<close>

theorem update_without_fields_is_noop:
  assumes "present_fields reqbody = []"
    and "find (\<lambda>r. r ''id'' = VInt n) (rows d) = Some r"
  shows "put_handler e (VInt n) reqbody d =
           (\<lparr>status = 200,
             body = [(''success'', JVal (VBool True)), (''message'', JMsg UpdatedMsg),
                     (''data'', JRow r)]\<rparr>,
            d\<lparr>executed := executed d @ [select_by_id (VInt n), select_by_id (VInt n)]\<rparr>)
       \<and> patch_handler e (VInt n) reqbody d =
           (\<lparr>status = 200,
             body = [(''success'', JVal (VBool True)), (''message'', JMsg UpdatedMsg),
                     (''data'', JRow r)]\<rparr>,
            d\<lparr>executed := executed d @ [select_by_id (VInt n), select_by_id (VInt n)]\<rparr>)
       \<and> update (VInt n) reqbody e d =
           (Inr (JRow r), d\<lparr>executed := executed d @ [select_by_id (VInt n)]\<rparr>)"
proof -
  from assms(2) obtain rs where sel: "filter (has_id (VInt n)) (rows d) = r # rs"
    using find_filter [of "\<lambda>r. r ''id'' = VInt n"] by (auto simp: has_id_VInt)
  have isbn: "reqbody ''isbn'' = VUndefined"
    using assms(1) by (rule present_fields_Nil) (simp add: fields_def)
  have upd: "update (VInt n) reqbody e d0 =
               (Inr (JRow r), d0\<lparr>executed := executed d0 @ [select_by_id (VInt n)]\<rparr>)"
    if "rows d0 = rows d" for d0
    using sel assms(1) that by (simp add: update_eq logged_def)
  have put: "put_handler e (VInt n) reqbody d =
           (\<lparr>status = 200,
             body = [(''success'', JVal (VBool True)), (''message'', JMsg UpdatedMsg),
                     (''data'', JRow r)]\<rparr>,
            d\<lparr>executed := executed d @ [select_by_id (VInt n), select_by_id (VInt n)]\<rparr>)"
    using sel isbn
    by (simp add: put_handler_def put_body_def findById_eq await_def upd catch_next_def json_def
        select_by_id_def)
  have patch: "patch_handler e (VInt n) reqbody d = put_handler e (VInt n) reqbody d"
    by (simp add: put_handler_def patch_handler_def put_body_def patch_body_def)
  show ?thesis
    using put patch upd [of d] by simp
qed

theorem update_without_fields_is_noop_witness:
  "present_fields no_fields = []
   \<and> find (\<lambda>r. r ''id'' = VInt 2) (rows example_db) = Some example_book2
   \<and> status (fst (put_handler example_env (VInt 2) no_fields example_db)) = 200
   \<and> rows (snd (put_handler example_env (VInt 2) no_fields example_db))
       = [example_book1, example_book2]
   \<and> status (fst (patch_handler example_env (VInt 2) no_fields example_db)) = 200
   \<and> fst (update (VInt 2) no_fields example_env example_db) = Inr (JRow example_book2)"
proof -
  have h1: "present_fields no_fields = []"
    by (simp add: present_fields_def no_fields_def)
  have h2: "find (\<lambda>r. r ''id'' = VInt 2) (rows example_db) = Some example_book2"
    by (simp add: example_db_def example_book1_def example_book2_def default_row_def)
  show ?thesis
    using h1 h2 update_without_fields_is_noop [OF h1 h2, of example_env]
    by (simp add: example_db_def)
qed

subsection \<open>C6\<close>



subsection \<open>C7\<close>

text \<open>
  C7, as the code has it. \<open>update\<close> submits the lookup and at most one UPDATE; the SET
  clause of that UPDATE names exactly the fields of \<open>fields\<close> that the input has, in
  that order. In every row of the table, every column other than these and other than
  \<open>updated_at\<close> is as before (so \<open>id\<close> and \<open>created_at\<close> are); \<open>updated_at\<close> is
  the one column outside the SET clause that changes, refreshed by the trigger.
  \<open>create\<close> submits one INSERT that names the nine columns of \<open>fields\<close>; in the row it
  returns, \<open>id\<close> is the next value of the sequence and both timestamps are the current
  time, whatever the input holds under those keys.
\<close>

theorem update_and_create_frame:
  "(executed (snd (update i bookData e d)) = executed d @ [select_by_id i]
      \<or> executed (snd (update i bookData e d))
          = executed d @ [select_by_id i, update_stmt bookData i])
   \<and> (\<exists>sets w ps. update_stmt bookData i = (Update sets w, ps)
          \<and> map fst sets = filter (\<lambda>f. bookData f \<noteq> VUndefined) fields)
   \<and> length (rows (snd (update i bookData e d))) = length (rows d)
   \<and> (\<forall>j k. j < length (rows d) \<and> k \<noteq> ''updated_at''
              \<and> (k \<notin> set fields \<or> bookData k = VUndefined)
          \<longrightarrow> (rows (snd (update i bookData e d)) ! j) k = (rows d ! j) k)
   \<and> (\<forall>j. j < length (rows d)
          \<longrightarrow> (rows (snd (update i bookData e d)) ! j) ''id'' = (rows d ! j) ''id''
            \<and> (rows (snd (update i bookData e d)) ! j) ''created_at'' = (rows d ! j) ''created_at'')
   \<and> executed (snd (create bookData e d)) = executed d @ [insert_stmt bookData]
   \<and> (\<exists>ps. insert_stmt bookData = (Insert fields [1, 2, 3, 4, 5, 6, 7, 8, 9], ps))
   \<and> (\<forall>r. fst (create bookData e d) = Inr (JRow r) \<longrightarrow>
          r ''id'' = VInt (next_id d) \<and> r ''created_at'' = VDate (clock e)
          \<and> r ''updated_at'' = VDate (clock e)
          \<and> rows (snd (create bookData e d)) = rows d @ [r])"
proof -
  have a: "executed (snd (update i bookData e d)) = executed d @ [select_by_id i]
      \<or> executed (snd (update i bookData e d))
          = executed d @ [select_by_id i, update_stmt bookData i]"
    by (rule update_executed)
  have b: "\<exists>sets w ps. update_stmt bookData i = (Update sets w, ps)
          \<and> map fst sets = filter (\<lambda>f. bookData f \<noteq> VUndefined) fields"
    by (simp add: update_stmt_def present_fields_def del: upt_Suc)
  note c = update_frame_rows [of i bookData e d]
  have d: "\<forall>j. j < length (rows d)
          \<longrightarrow> (rows (snd (update i bookData e d)) ! j) ''id'' = (rows d ! j) ''id''
            \<and> (rows (snd (update i bookData e d)) ! j) ''created_at'' = (rows d ! j) ''created_at''"
    using c by (simp add: fields_def)
  have f: "\<exists>ps. insert_stmt bookData = (Insert fields [1, 2, 3, 4, 5, 6, 7, 8, 9], ps)"
    by (simp add: insert_stmt_def)
  note g = create_result [of bookData e d]
  show ?thesis
    using a b c d f g by blast
qed

theorem update_and_create_frame_witness:
  "(1::nat) < length (rows example_db)
   \<and> ''created_at'' \<noteq> ''updated_at''
   \<and> ''created_at'' \<notin> set fields
   \<and> (rows (snd (update (VInt 2) example_new_title example_env example_db)) ! 1) ''created_at''
       = VDate 0
   \<and> (rows (snd (update (VInt 2) example_new_title example_env example_db)) ! 1) ''id'' = VInt 2
   \<and> (rows (snd (update (VInt 2) example_new_title example_env example_db)) ! 1) ''title''
       = VStr ''New''
   \<and> fst (create example_forged example_env example_db)
       = Inr (JRow (inserted_row example_forged 3 5))
   \<and> inserted_row example_forged 3 5 ''id'' = VInt 3
   \<and> inserted_row example_forged 3 5 ''created_at'' = VDate 5
   \<and> inserted_row example_forged 3 5 ''updated_at'' = VDate 5"
proof -
  have viol: "violation (rows example_db @ [inserted_row example_forged 3 5]) = None"
    by (simp add: violation_def example_db_def example_book1_def example_book2_def
        default_row_def inserted_row_def insert_stmt_def fields_def assign_def param_def
        prepareValue_def example_forged_def no_fields_def)
  have cr: "fst (create example_forged example_env example_db)
              = Inr (JRow (inserted_row example_forged 3 5))"
    using viol by (simp add: create_eq example_db_def example_env_def)
  have title: "(rows (snd (update (VInt 2) example_new_title example_env example_db)) ! 1) ''title''
       = VStr ''New''"
    by (simp add: update_eq has_id_VInt example_db_def example_book1_def example_book2_def
        default_row_def present_fields_def fields_def example_new_title_def no_fields_def
        violation_def updated_row_def prepareValue_def logged_def example_env_def)
  have old: "(rows example_db ! 1) ''created_at'' = VDate 0 \<and> (rows example_db ! 1) ''id'' = VInt 2"
    by (simp add: example_db_def example_book2_def default_row_def)
  have len: "(1::nat) < length (rows example_db)"
    by (simp add: example_db_def)
  have k: "''created_at'' \<noteq> ''updated_at'' \<and> ''created_at'' \<notin> set fields"
    by (simp add: fields_def)
  show ?thesis
    using update_and_create_frame [of "VInt 2" example_new_title example_env example_db]
      update_and_create_frame [of "VInt 2" example_forged example_env example_db]
      cr title old len k
    by (simp add: example_db_def example_env_def)
qed

text \<open>
  C7, as the claim states it, fails on \<open>updated_at\<close>: the column is not one of the
  nine fields and is not in the SET clause, and an update of the title of book 2 at time
  5 changes it from 0 to 5.
\<close>

theorem update_changes_updated_at:
  "''updated_at'' \<notin> set fields
   \<and> example_new_title ''updated_at'' = VUndefined
   \<and> (rows example_db ! 1) ''updated_at'' = VDate 0
   \<and> (rows (snd (update (VInt 2) example_new_title example_env example_db)) ! 1) ''updated_at''
       = VDate 5"
  by (simp add: update_eq has_id_VInt example_db_def example_book1_def example_book2_def
      default_row_def present_fields_def fields_def example_new_title_def no_fields_def
      violation_def updated_row_def prepareValue_def logged_def example_env_def)

subsection \<open>C8\<close>

text \<open>
  C8. An error of the store or of the connection carries a code. At the boundary
  (\<open>catch_next\<close> hands what a handler threw to \<open>errorHandler\<close>), code 23505
  (unique violation) gives 409 with the store's \<open>detail\<close> as \<open>details\<close>, 23503
  (foreign-key violation) gives 400 with the \<open>detail\<close>, 22P02 (invalid text
  representation) gives 400 and ECONNREFUSED gives 503. Each body is
  \<open>success: false\<close>, \<open>error\<close>, \<open>details\<close> where the source sets it and the error
  has a \<open>detail\<close>, and \<open>timestamp\<close>, the current time; it has no other key.
\<close>

theorem database_errors_are_mapped:
  "catch_next e (Inl (PgError (VStr ''23505'') detail msg), d) =
     (\<lparr>status = 409,
       body = [(''success'', JVal (VBool False)), (''error'', JMsg DuplicateRecordMsg)]
              @ (if detail = VUndefined then [] else [(''details'', JVal detail)])
              @ [(''timestamp'', JVal (VDate (clock e)))]\<rparr>, d)
   \<and> catch_next e (Inl (PgError (VStr ''23503'') detail msg), d) =
     (\<lparr>status = 400,
       body = [(''success'', JVal (VBool False)), (''error'', JMsg ForeignKeyMsg)]
              @ (if detail = VUndefined then [] else [(''details'', JVal detail)])
              @ [(''timestamp'', JVal (VDate (clock e)))]\<rparr>, d)
   \<and> catch_next e (Inl (PgError (VStr ''22P02'') detail msg), d) =
     (\<lparr>status = 400,
       body = [(''success'', JVal (VBool False)), (''error'', JMsg BadFormatMsg),
               (''timestamp'', JVal (VDate (clock e)))]\<rparr>, d)
   \<and> catch_next e (Inl (PgError (VStr ''ECONNREFUSED'') detail msg), d) =
     (\<lparr>status = 503,
       body = [(''success'', JVal (VBool False)), (''error'', JMsg DbUnavailableMsg),
               (''timestamp'', JVal (VDate (clock e)))]\<rparr>, d)"
  by (cases detail) (simp_all add: catch_next_def errorHandler_def json_def)

theorem database_errors_are_mapped_witness:
  "status (fst (catch_next example_env
      (Inl (PgError (VStr ''23505'') (key_detail ''isbn'' (VStr ''1234567890'')) (RawMsg ''23505'')),
       example_db))) = 409
   \<and> map_of (body (fst (catch_next example_env
      (Inl (PgError (VStr ''23505'') (key_detail ''isbn'' (VStr ''1234567890'')) (RawMsg ''23505'')),
       example_db)))) ''details'' = Some (JVal (key_detail ''isbn'' (VStr ''1234567890'')))
   \<and> map fst (body (fst (catch_next example_env
      (Inl (PgError (VStr ''ECONNREFUSED'') VUndefined (RawMsg ''connect'')), example_db))))
       = [''success'', ''error'', ''timestamp'']
   \<and> status (fst (catch_next example_env
      (Inl (PgError (VStr ''ECONNREFUSED'') VUndefined (RawMsg ''connect'')), example_db))) = 503"
  using database_errors_are_mapped [of example_env "key_detail ''isbn'' (VStr ''1234567890'')"
      "RawMsg ''23505''" example_db]
    database_errors_are_mapped [of example_env VUndefined "RawMsg ''connect''" example_db]
  by (simp add: key_detail_def)

subsection \<open>C9\<close>

text \<open>
  C9. The validation accepts the four strings \<open>true\<close>, \<open>false\<close>, \<open>1\<close> and \<open>0\<close> for
  \<open>inStock\<close>, and the handler turns every accepted string other than \<open>true\<close> into
  \<open>false\<close>. The request \<open>inStock=1\<close> passes validation and is answered with the
  books that are out of stock.
\<close>

theorem inStock_1_lists_out_of_stock:
  "listBooksValidation example_in_stock_1 = []
   \<and> inStock (list_options example_in_stock_1) = Some False
   \<and> example_book1 ''in_stock'' = VBool True
   \<and> example_book2 ''in_stock'' = VBool False
   \<and> status (fst (list_route example_env example_in_stock_1 example_db)) = 200
   \<and> map_of (body (fst (list_route example_env example_in_stock_1 example_db))) ''data''
       = Some (JRows [example_book2])
   \<and> executed (snd (list_route example_env example_in_stock_1 example_db))
       = [(Select (AllOf [EQ ''in_stock'' 1]) (Some (''created_at'', ''DESC'')) (Some (2, 3)),
           [VBool False, VInt 10, VInt 0]),
          (SelectCount (AllOf [EQ ''in_stock'' 1]), [VBool False])]"
proof -
  have v: "listBooksValidation example_in_stock_1 = []"
    by (simp add: listBooksValidation_def optional_rule_def example_in_stock_1_def no_query_def
        isBoolean_def)
  have i: "inStock (list_options example_in_stock_1) = Some False"
    by (simp add: list_options_def example_in_stock_1_def no_query_def)
  have o: "opt_limit (list_options example_in_stock_1) = 10"
    "opt_offset (list_options example_in_stock_1) = 0"
    by (simp_all add: opt_limit_def opt_offset_def opt_page_def list_options_def
        example_in_stock_1_def no_query_def or_int_def)
  have w: "list_conds (list_options example_in_stock_1) = [EQ ''in_stock'' 1]"
    "list_params (list_options example_in_stock_1) = [VBool False]"
    by (simp_all add: list_conds_def list_params_def list_where_def where_genre_def
        where_author_def where_inStock_def list_options_def example_in_stock_1_def no_query_def)
  have s: "safeSortBy (list_options example_in_stock_1) = ''created_at''"
    "safeSortOrder (list_options example_in_stock_1) = ''DESC''"
    by (simp_all add: safeSortBy_def safeSortOrder_def list_options_def example_in_stock_1_def
        no_query_def or_string_def allowedSortFields_def toUpperCase_def upper_char_def)
  have b: "example_book1 ''in_stock'' = VBool True" "example_book2 ''in_stock'' = VBool False"
    by (simp_all add: example_book1_def example_book2_def default_row_def)
  have m: "list_matching (list_options example_in_stock_1) example_db = [example_book2]"
    by (simp add: list_matching_def w example_db_def b param_def prepareValue_def)
  have rows: "page_rows (list_options example_in_stock_1) example_db = [example_book2]"
    by (simp add: page_rows_def o s m ordered_def)
  have ex: "executed example_db = []"
    by (simp add: example_db_def)
  show ?thesis
    using v i b ex
    by (simp add: list_route_valid [OF v] rows select_page_stmt_def count_stmt_def w s o)
qed

subsection \<open>C10\<close>

text \<open>
  C10, as the code has it. The input has a field of \<open>fields\<close> set to null and the target
  row exists. Then \<open>update\<close> submits the UPDATE, and its SET clause names the field with
  a parameter bound to NULL. What the store makes of it: where the rows the statement would
  leave satisfy the table's constraints, the returned and stored row has NULL in that
  column; for \<open>title\<close> and \<open>author\<close> they never do (NOT NULL), the statement is
  rejected with code 23502 and the rows stay. A key that is absent (\<open>undefined\<close>) leaves
  its column as it was.
\<close>

theorem null_field_is_in_set_clause:
  assumes "f \<in> set fields" and "bookData f = VNull"
    and "find (\<lambda>r. r ''id'' = VInt n) (rows d) = Some r"
  shows "executed (snd (update (VInt n) bookData e d))
           = executed d @ [select_by_id (VInt n), update_stmt bookData (VInt n)]
       \<and> (\<exists>sets w ps k. update_stmt bookData (VInt n) = (Update sets w, ps)
              \<and> (f, k) \<in> set sets \<and> param ps k = VNull)
       \<and> updated_row bookData (clock e) r f = VNull
       \<and> (violation (map (\<lambda>x. if x ''id'' = VInt n then updated_row bookData (clock e) x else x)
                        (rows d)) = None
            \<longrightarrow> fst (update (VInt n) bookData e d) = Inr (JRow (updated_row bookData (clock e) r))
              \<and> rows (snd (update (VInt n) bookData e d))
                  = map (\<lambda>x. if x ''id'' = VInt n then updated_row bookData (clock e) x else x)
                      (rows d))
       \<and> (f = ''title'' \<or> f = ''author''
            \<longrightarrow> fst (update (VInt n) bookData e d) = Inl (pg_error ''23502'' VUndefined)
              \<and> rows (snd (update (VInt n) bookData e d)) = rows d)
       \<and> (\<forall>k. bookData k = VUndefined \<and> k \<noteq> ''updated_at''
              \<longrightarrow> updated_row bookData (clock e) r k = r k)"
proof -
  let ?fs = "present_fields bookData"
  let ?rows' = "map (\<lambda>x. if x ''id'' = VInt n then updated_row bookData (clock e) x else x) (rows d)"
  from assms(3) obtain rs where sel: "filter (has_id (VInt n)) (rows d) = r # rs"
    using find_filter [of "\<lambda>r. r ''id'' = VInt n"] by (auto simp: has_id_VInt)
  from assms(3) have r: "r \<in> set (rows d)" "r ''id'' = VInt n"
    using find_Some_set [of "\<lambda>r. r ''id'' = VInt n"] by auto
  have pres: "f \<in> set ?fs"
    using assms(1,2) by (simp add: present_fields_def)
  then have ne: "?fs \<noteq> []" by auto
  have upd: "update (VInt n) bookData e d =
      (case violation ?rows' of
         Some err \<Rightarrow> (Inl err, logged d [select_by_id (VInt n), update_stmt bookData (VInt n)])
       | None \<Rightarrow> (Inr (JRow (updated_row bookData (clock e) r)),
                   (logged d [select_by_id (VInt n), update_stmt bookData (VInt n)])\<lparr>rows := ?rows'\<rparr>))"
    using sel ne by (simp add: update_eq has_id_VInt split: option.splits)
  have a: "executed (snd (update (VInt n) bookData e d))
           = executed d @ [select_by_id (VInt n), update_stmt bookData (VInt n)]"
    by (simp add: upd logged_def split: option.splits)
  have "f \<in> set (map fst (zip ?fs [1..<Suc (length ?fs)]))"
    using pres by (simp del: upt_Suc)
  then obtain k where k: "(f, k) \<in> set (zip ?fs [1..<Suc (length ?fs)])"
    by auto
  then have "param (map bookData ?fs @ [VInt n]) k = prepareValue (bookData f)"
    by (rule zip_upt_param)
  then have "param (map bookData ?fs @ [VInt n]) k = VNull"
    using assms(2) by (simp add: prepareValue_def)
  then have b: "\<exists>sets w ps k. update_stmt bookData (VInt n) = (Update sets w, ps)
              \<and> (f, k) \<in> set sets \<and> param ps k = VNull"
    using k unfolding update_stmt_def by blast
  have f_nu: "f \<noteq> ''updated_at''"
    using assms(1) by (auto simp: fields_def)
  have c: "updated_row bookData (clock e) r f = VNull"
    using assms(1,2) f_nu by (simp add: updated_row_def prepareValue_def)
  have dd: "violation ?rows' = None
            \<longrightarrow> fst (update (VInt n) bookData e d) = Inr (JRow (updated_row bookData (clock e) r))
              \<and> rows (snd (update (VInt n) bookData e d)) = ?rows'"
    by (simp add: upd logged_def)
  have ee: "fst (update (VInt n) bookData e d) = Inl (pg_error ''23502'' VUndefined)
              \<and> rows (snd (update (VInt n) bookData e d)) = rows d"
    if nn: "f = ''title'' \<or> f = ''author''"
  proof -
    have "updated_row bookData (clock e) r \<in> set ?rows'"
      using r by (auto simp: image_iff intro!: bexI [of _ r])
    moreover have "updated_row bookData (clock e) r ''title'' = VNull
        \<or> updated_row bookData (clock e) r ''author'' = VNull"
      using c nn by auto
    ultimately have "violation ?rows' = Some (pg_error ''23502'' VUndefined)"
      by (rule violation_null_title)
    then show ?thesis by (simp add: upd logged_def)
  qed
  have g: "\<forall>k. bookData k = VUndefined \<and> k \<noteq> ''updated_at''
              \<longrightarrow> updated_row bookData (clock e) r k = r k"
    by (simp add: updated_row_frame)
  show ?thesis
    using a b c dd ee g by blast
qed

theorem null_field_is_in_set_clause_witness:
  "''genre'' \<in> set fields
   \<and> example_null_genre ''genre'' = VNull
   \<and> find (\<lambda>r. r ''id'' = VInt 2) (rows example_db) = Some example_book2
   \<and> example_book2 ''genre'' = VStr ''Novel''
   \<and> violation (map (\<lambda>x. if x ''id'' = VInt 2 then updated_row example_null_genre 5 x else x)
                   (rows example_db)) = None
   \<and> fst (update (VInt 2) example_null_genre example_env example_db)
       = Inr (JRow (updated_row example_null_genre 5 example_book2))
   \<and> updated_row example_null_genre 5 example_book2 ''genre'' = VNull
   \<and> (rows (snd (update (VInt 2) example_null_genre example_env example_db)) ! 1) ''genre'' = VNull
   \<and> example_null_genre ''title'' = VUndefined
   \<and> (rows (snd (update (VInt 2) example_null_genre example_env example_db)) ! 1) ''title''
       = VStr ''Zed''"
proof -
  have h1: "''genre'' \<in> set fields"
    by (simp add: fields_def)
  have h2: "example_null_genre ''genre'' = VNull"
    by (simp add: example_null_genre_def)
  have h3: "find (\<lambda>r. r ''id'' = VInt 2) (rows example_db) = Some example_book2"
    by (simp add: example_db_def example_book1_def example_book2_def default_row_def)
  have h4: "violation (map (\<lambda>x. if x ''id'' = VInt 2 then updated_row example_null_genre 5 x else x)
                   (rows example_db)) = None"
    by (simp add: violation_def example_db_def example_book1_def example_book2_def
        default_row_def updated_row_def fields_def example_null_genre_def no_fields_def
        prepareValue_def)
  have h5: "example_book2 ''genre'' = VStr ''Novel'' \<and> example_book2 ''title'' = VStr ''Zed''
      \<and> example_book2 ''id'' = VInt 2 \<and> example_book1 ''id'' = VInt 1"
    by (simp add: example_book2_def example_book1_def default_row_def)
  have h6: "example_null_genre ''title'' = VUndefined"
    by (simp add: example_null_genre_def no_fields_def)
  show ?thesis
    using h1 h2 h3 h4 h5 h6
      null_field_is_in_set_clause [where f = "''genre''" and bookData = example_null_genre
        and n = 2 and d = example_db and r = example_book2 and e = example_env]
    by (simp add: example_env_def example_db_def updated_row_def)
qed

text \<open>
  C10, as the claim states it, fails for the two NOT NULL columns: an update of book 2
  with \<open>title: null\<close> is rejected by the store, and the title stays.
\<close>

theorem null_title_is_not_written:
  "''title'' \<in> set fields
   \<and> example_null_title ''title'' = VNull
   \<and> fst (update (VInt 2) example_null_title example_env example_db)
       = Inl (pg_error ''23502'' VUndefined)
   \<and> (rows (snd (update (VInt 2) example_null_title example_env example_db)) ! 1) ''title''
       = VStr ''Zed''"
  by (simp add: update_eq has_id_VInt example_db_def example_book1_def example_book2_def
      default_row_def present_fields_def fields_def example_null_title_def no_fields_def
      violation_def updated_row_def prepareValue_def logged_def example_env_def)

end
